theory Spec2Isabelle
  imports Main "HOL-Library.Word"
begin

unbundle bit_operations_syntax

section \<open>Machine types and faults\<close>

text \<open>
  The fixed-width integer types of the source: \<open>rt_uint8_t\<close>, \<open>rt_uint16_t\<close>,
  \<open>rt_uint32_t\<close> are unsigned words; \<open>rt_int16_t\<close> (the coordinates of a rectangle)
  is a 16-bit word read with \<open>sint\<close>. Values promoted to C \<open>int\<close> are computed in
  \<open>int\<close> where the range of the operands excludes overflow.
\<close>

type_synonym u8 = "8 word"
type_synonym u16 = "16 word"
type_synonym u32 = "32 word"
type_synonym s16 = "16 word"

text \<open>
  What C leaves undefined is a value of the model: dereferencing a null node pointer and
  reading a byte that lies outside the buffer it is read from.
\<close>

datatype fault = NullDeref | OutOfBounds

definition byte_at :: "u8 list \<Rightarrow> nat \<Rightarrow> u8 option" where
  "byte_at mem i = (if i < length mem then Some (mem ! i) else None)"

section \<open>The glyph cache\<close>

text \<open>
  A cache entry is the header \<open>struct hz_cache\<close> followed by the glyph's bitmap
  (\<open>cache + 1\<close> in the source): the key \<open>hz_id\<close> and the bytes read from the file.
\<close>

record hz_cache =
  hz_id :: u16
  hz_data :: "u8 list"

text \<open>\<open>_font_cache_compare\<close>: the order of the tree, on the unsigned 16-bit keys.\<close>

definition font_cache_compare :: "hz_cache \<Rightarrow> hz_cache \<Rightarrow> int" where
  "font_cache_compare cache_1 cache_2 =
     (if hz_id cache_1 > hz_id cache_2 then 1
      else if hz_id cache_1 < hz_id cache_2 then - 1
      else 0)"

text \<open>
  Modelled from the spec: the macros \<open>SPLAY_FIND\<close>, \<open>SPLAY_INSERT\<close>, \<open>SPLAY_REMOVE\<close>
  and \<open>SPLAY_LEFT\<close> of \<open>rtgui/tree.h\<close> are not among the sources. The spec describes
  the tree as an ordered map keyed by glyph code with unique keys that exposes lookup,
  insertion, removal and the minimum; the model keeps the tree's in-order sequence, a
  list of entries in the order of \<open>font_cache_compare\<close>. A lookup returns the entry that
  compares equal, an insertion puts the entry at its place in the order and leaves the
  tree as it is when an equal key is present, a removal takes out the entry that
  compares equal.
\<close>

fun SPLAY_FIND :: "hz_cache list \<Rightarrow> hz_cache \<Rightarrow> hz_cache option" where
  "SPLAY_FIND [] search = None"
| "SPLAY_FIND (c # cs) search =
     (if font_cache_compare search c = 0 then Some c else SPLAY_FIND cs search)"

fun SPLAY_INSERT :: "hz_cache list \<Rightarrow> hz_cache \<Rightarrow> hz_cache list" where
  "SPLAY_INSERT [] cache = [cache]"
| "SPLAY_INSERT (c # cs) cache =
     (if font_cache_compare cache c < 0 then cache # c # cs
      else if font_cache_compare cache c > 0 then c # SPLAY_INSERT cs cache
      else c # cs)"

fun SPLAY_REMOVE :: "hz_cache list \<Rightarrow> hz_cache \<Rightarrow> hz_cache list" where
  "SPLAY_REMOVE [] elm = []"
| "SPLAY_REMOVE (c # cs) elm =
     (if font_cache_compare elm c = 0 then cs else c # SPLAY_REMOVE cs elm)"

text \<open>
  The walk \<open>left = root; while (SPLAY_LEFT(left) != NULL) left = SPLAY_LEFT(left)\<close>
  ends at the first entry of the in-order sequence. On an empty tree the root is null
  and \<open>SPLAY_LEFT\<close> dereferences it.
\<close>

fun leftmost :: "hz_cache list \<Rightarrow> fault + hz_cache" where
  "leftmost [] = Inl NullDeref"
| "leftmost (c # cs) = Inr c"

text \<open>
  \<open>struct rtgui_hz_file_font\<close>. Its declaration in \<open>rtgui/font.h\<close> is not among the
  sources; the fields are those \<open>font_hz_file.c\<close> uses, the count and the two sizes
  taken as \<open>rt_uint16_t\<close> and the descriptor as \<open>int\<close>. The file name is left out:
  the file behind it is part of the environment below.
\<close>

record rtgui_hz_file_font =
  cache_root :: "hz_cache list"
  cache_size :: u16
  font_size :: u16
  font_data_size :: u16
  fd :: int

definition HZ_CACHE_MAX :: int where
  "HZ_CACHE_MAX = 64"

section \<open>The glyph file store\<close>

text \<open>
  Allocation and file access are services of the host. One call of \<open>_font_cache_get\<close>
  asks each of them at most once, and an \<open>io_env\<close> holds what they answer during that
  call: whether \<open>rtgui_malloc\<close> returns a block, the descriptor \<open>open\<close> returns (negative
  on failure), whether \<open>lseek\<close> and \<open>read\<close> succeed, and the bytes of the font file.
  \<open>read\<close> delivers the bytes from the position of the seek, at most as many as asked for.
\<close>

record io_env =
  malloc_ok :: bool
  open_ret :: int
  lseek_ok :: bool
  read_ok :: bool
  file_data :: "u8 list"

datatype io_call = Open | Lseek u32 | Read nat

definition file_read :: "io_env \<Rightarrow> nat \<Rightarrow> nat \<Rightarrow> u8 list option" where
  "file_read env pos n =
     (if read_ok env then Some (take n (drop pos (file_data env))) else None)"

text \<open>
  The record index and the byte offset of a glyph, lines 103 and 104. The index is
  computed in \<open>int\<close> from the promoted key, stored into the \<open>rt_uint32_t seek\<close> and
  multiplied there by the record size.
\<close>

definition hz_index :: "u16 \<Rightarrow> int" where
  "hz_index hz = 94 * ((uint (hz AND 0xff) - 0xA0) - 1) + (uint (drop_bit 8 hz) - 0xA0) - 1"

definition hz_seek :: "u16 \<Rightarrow> u16 \<Rightarrow> u32" where
  "hz_seek hz data_size = (word_of_int (hz_index hz) :: u32) * ucast data_size"

text \<open>
  Lines 106 to 123: open the file when no descriptor is held, seek, and read one record.
  The result is the font (its descriptor may have changed), the record or \<open>None\<close>, and
  the file calls made.
\<close>

definition hz_file_load ::
  "io_env \<Rightarrow> rtgui_hz_file_font \<Rightarrow> u16 \<Rightarrow> rtgui_hz_file_font \<times> u8 list option \<times> io_call list" where
  "hz_file_load env font hz =
     (let seek = hz_seek hz (font_data_size font);
          font1 = (if fd font < 0 then font\<lparr>fd := open_ret env\<rparr> else font);
          t1 = (if fd font < 0 then [Open] else [])
      in if fd font1 < 0 then (font1, None, t1)
         else if \<not> lseek_ok env then (font1, None, t1 @ [Lseek seek])
         else (case file_read env (unat seek) (unat (font_data_size font)) of
                 None \<Rightarrow> (font1, None, t1 @ [Lseek seek, Read (unat (font_data_size font))])
               | Some bs \<Rightarrow>
                   if length bs \<noteq> unat (font_data_size font)
                   then (font1, None, t1 @ [Lseek seek, Read (unat (font_data_size font))])
                   else (font1, Some bs, t1 @ [Lseek seek, Read (unat (font_data_size font))])))"

text \<open>
  Lines 126 to 146: when the count has reached \<open>HZ_CACHE_MAX\<close> the leftmost entry is
  removed and the count decremented; then the new entry is inserted and the count
  incremented. The count is an \<open>rt_uint16_t\<close>.
\<close>

definition font_cache_put :: "rtgui_hz_file_font \<Rightarrow> hz_cache \<Rightarrow> fault + rtgui_hz_file_font" where
  "font_cache_put font cache =
     (if uint (cache_size font) \<ge> HZ_CACHE_MAX then
        (case leftmost (cache_root font) of
           Inl e \<Rightarrow> Inl e
         | Inr left \<Rightarrow>
             Inr (font\<lparr>cache_root := SPLAY_INSERT (SPLAY_REMOVE (cache_root font) left) cache,
                       cache_size := cache_size font - 1 + 1\<rparr>))
      else Inr (font\<lparr>cache_root := SPLAY_INSERT (cache_root font) cache,
                     cache_size := cache_size font + 1\<rparr>))"

text \<open>
  \<open>_font_cache_get\<close>. The result is the bitmap the returned pointer refers to (\<open>None\<close>
  for \<open>RT_NULL\<close>), the font after the call and the file calls the call made.
\<close>

definition font_cache_get ::
  "io_env \<Rightarrow> rtgui_hz_file_font \<Rightarrow> u16 \<Rightarrow>
     fault + (u8 list option \<times> rtgui_hz_file_font \<times> io_call list)" where
  "font_cache_get env font hz =
     (case SPLAY_FIND (cache_root font) \<lparr>hz_id = hz, hz_data = []\<rparr> of
        Some cache \<Rightarrow> Inr (Some (hz_data cache), font, [])
      | None \<Rightarrow>
          if \<not> malloc_ok env then Inr (None, font, [])
          else (case hz_file_load env font hz of
                  (font1, None, t) \<Rightarrow> Inr (None, font1, t)
                | (font1, Some bs, t) \<Rightarrow>
                    (case font_cache_put font1 \<lparr>hz_id = hz, hz_data = bs\<rparr> of
                       Inl e \<Rightarrow> Inl e
                     | Inr font2 \<Rightarrow> Inr (Some bs, font2, t))))"

section \<open>Cache states and call sequences\<close>

text \<open>
  The state a font's cache is in between calls: the entries are in strictly increasing
  key order (so keys are unique), the count field is the number of entries, and there
  are at most 64 of them. The empty cache of a font that has just been set up is such
  a state.
\<close>

definition cache_inv :: "rtgui_hz_file_font \<Rightarrow> bool" where
  "cache_inv font =
     (sorted_wrt (<) (map hz_id (cache_root font)) \<and>
      unat (cache_size font) = length (cache_root font) \<and>
      length (cache_root font) \<le> 64)"

text \<open>
  A sequence of calls of \<open>_font_cache_get\<close>, each with the answers the host gives during
  it; the result lists the font after each call.
\<close>

fun cache_gets ::
  "rtgui_hz_file_font \<Rightarrow> (io_env \<times> u16) list \<Rightarrow> fault + rtgui_hz_file_font list" where
  "cache_gets font [] = Inr []"
| "cache_gets font ((env, hz) # calls) =
     (case font_cache_get env font hz of
        Inl e \<Rightarrow> Inl e
      | Inr (r, font', t) \<Rightarrow>
          (case cache_gets font' calls of
             Inl e \<Rightarrow> Inl e
           | Inr fonts \<Rightarrow> Inr (font' # fonts)))"

text \<open>
  The record of a glyph is present and can be loaded: the allocation succeeds, the file
  is open or opens, seek and read succeed, and the file holds all the bytes of the
  record at the glyph's offset.
\<close>

definition record_loads :: "io_env \<Rightarrow> rtgui_hz_file_font \<Rightarrow> u16 \<Rightarrow> bool" where
  "record_loads env font hz =
     (malloc_ok env \<and> (fd font < 0 \<longrightarrow> 0 \<le> open_ret env) \<and> lseek_ok env \<and> read_ok env \<and>
      unat (hz_seek hz (font_data_size font)) + unat (font_data_size font)
        \<le> length (file_data env))"

text \<open>
  The failures of a load: the allocation fails, the file is not open and cannot be
  opened, the seek fails, or the read fails or delivers fewer bytes than a record has.
\<close>

definition load_fails :: "io_env \<Rightarrow> rtgui_hz_file_font \<Rightarrow> u16 \<Rightarrow> bool" where
  "load_fails env font hz =
     (\<not> malloc_ok env \<or> (fd font < 0 \<and> open_ret env < 0) \<or> \<not> lseek_ok env \<or> \<not> read_ok env \<or>
      length (file_data env) - unat (hz_seek hz (font_data_size font)) < unat (font_data_size font))"

text \<open>Concrete fonts and environments used to instantiate the theorems below.\<close>

definition full_font :: rtgui_hz_file_font where
  "full_font = \<lparr>cache_root = map (\<lambda>i. \<lparr>hz_id = of_nat i, hz_data = [0, 0]\<rparr>) [1..<65],
                cache_size = 64, font_size = 1, font_data_size = 2, fd = 3\<rparr>"

definition good_env :: io_env where
  "good_env = \<lparr>malloc_ok = True, open_ret = 3, lseek_ok = True, read_ok = True,
               file_data = replicate 200 0\<rparr>"


definition empty_font :: rtgui_hz_file_font where
  "empty_font = \<lparr>cache_root = [], cache_size = 0, font_size = 16, font_data_size = 32, fd = - 1\<rparr>"

definition font_file_env :: io_env where
  "font_file_env = \<lparr>malloc_ok = True, open_ret = 3, lseek_ok = True, read_ok = True,
                    file_data = replicate 64 0xFF\<rparr>"

definition no_file_env :: io_env where
  "no_file_env = \<lparr>malloc_ok = True, open_ret = - 1, lseek_ok = True, read_ok = True,
                  file_data = []\<rparr>"

section \<open>Drawing a double-byte run\<close>

text \<open>
  \<open>struct rtgui_rect\<close> has four \<open>rt_int16_t\<close> coordinates. Of the graphic context the
  source reads the background colour and tests the text style against
  \<open>RTGUI_TEXTSTYLE_DRAW_BACKGROUND\<close>; the mask's value is not among the sources, so the
  context holds the outcome of that test. The calls made on the drawing surface are
  recorded in order: \<open>rtgui_dc_draw_point\<close> and \<open>rtgui_dc_draw_color_point\<close> take
  \<open>int\<close> coordinates.
\<close>

record rtgui_rect =
  x1 :: s16
  y1 :: s16
  x2 :: s16
  y2 :: s16

record rtgui_gc =
  draw_background :: bool
  background :: u32

datatype dc_op = is_point: Draw_point int int | is_color_point: Draw_color_point int int u32

definition byte_at_int :: "u8 list \<Rightarrow> int \<Rightarrow> u8 option" where
  "byte_at_int mem i = (if 0 \<le> i \<and> i < int (length mem) then Some (mem ! nat i) else None)"

text \<open>The body of the innermost loop, lines 197 to 205, for the byte \<open>b\<close> just read.\<close>

definition draw_bit :: "rtgui_gc \<Rightarrow> rtgui_rect \<Rightarrow> u8 \<Rightarrow> int \<Rightarrow> int \<Rightarrow> int \<Rightarrow> dc_op list" where
  "draw_bit gc rect b i j k =
     (if (drop_bit (nat (7 - k)) b AND 0x01) \<noteq> 0 \<and> sint (x1 rect) + 8 * j + k < sint (x2 rect)
      then [Draw_point (sint (x1 rect) + 8 * j + k) (sint (y1 rect) + i)]
      else if draw_background gc
      then [Draw_color_point (sint (x1 rect) + 8 * j + k) (sint (y1 rect) + i) (background gc)]
      else [])"

text \<open>
  The three nested loops of lines 192 to 207, each a recursion on its counter. The
  byte \<open>font_ptr[i * word_bytes + j]\<close> is read at every bit.
\<close>

function draw_k :: "u8 list \<Rightarrow> rtgui_gc \<Rightarrow> rtgui_rect \<Rightarrow> int \<Rightarrow> int \<Rightarrow> int \<Rightarrow> int \<Rightarrow> fault + dc_op list" where
  "draw_k font_ptr gc rect word_bytes i j k =
     (if k < 8 then
        (case byte_at_int font_ptr (i * word_bytes + j) of
           None \<Rightarrow> Inl OutOfBounds
         | Some b \<Rightarrow>
             (case draw_k font_ptr gc rect word_bytes i j (k + 1) of
                Inl e \<Rightarrow> Inl e
              | Inr ops \<Rightarrow> Inr (draw_bit gc rect b i j k @ ops)))
      else Inr [])"
  by pat_completeness auto
termination
  by (relation "measure (\<lambda>(font_ptr, gc, rect, word_bytes, i, j, k). nat (8 - k))") auto

declare draw_k.simps [simp del]

function draw_j :: "u8 list \<Rightarrow> rtgui_gc \<Rightarrow> rtgui_rect \<Rightarrow> int \<Rightarrow> int \<Rightarrow> int \<Rightarrow> fault + dc_op list" where
  "draw_j font_ptr gc rect word_bytes i j =
     (if j < word_bytes then
        (case draw_k font_ptr gc rect word_bytes i j 0 of
           Inl e \<Rightarrow> Inl e
         | Inr ops \<Rightarrow>
             (case draw_j font_ptr gc rect word_bytes i (j + 1) of
                Inl e \<Rightarrow> Inl e
              | Inr ops' \<Rightarrow> Inr (ops @ ops')))
      else Inr [])"
  by pat_completeness auto
termination
  by (relation "measure (\<lambda>(font_ptr, gc, rect, word_bytes, i, j). nat (word_bytes - j))") auto

declare draw_j.simps [simp del]

function draw_i :: "u8 list \<Rightarrow> rtgui_gc \<Rightarrow> rtgui_rect \<Rightarrow> int \<Rightarrow> int \<Rightarrow> int \<Rightarrow> fault + dc_op list" where
  "draw_i font_ptr gc rect h word_bytes i =
     (if i < h then
        (case draw_j font_ptr gc rect word_bytes i 0 of
           Inl e \<Rightarrow> Inl e
         | Inr ops \<Rightarrow>
             (case draw_i font_ptr gc rect h word_bytes (i + 1) of
                Inl e \<Rightarrow> Inl e
              | Inr ops' \<Rightarrow> Inr (ops @ ops')))
      else Inr [])"
  by pat_completeness auto
termination
  by (relation "measure (\<lambda>(font_ptr, gc, rect, h, word_bytes, i). nat (h - i))") auto

declare draw_i.simps [simp del]

text \<open>Lines 176 to 178: the drawing height and the bytes of a bitmap row.\<close>

definition drawing_height :: "rtgui_hz_file_font \<Rightarrow> rtgui_rect \<Rightarrow> int" where
  "drawing_height font rect =
     (if uint (font_size font) + sint (y1 rect) > sint (y2 rect)
      then sint (y2 rect) - sint (y1 rect)
      else uint (font_size font))"

definition row_bytes :: "rtgui_hz_file_font \<Rightarrow> int" where
  "row_bytes font = (uint (font_size font) + 7) div 8"

text \<open>
  The loop of lines 182 to 214 over the glyphs of a run. \<open>mem\<close> is the buffer the run
  lies in, \<open>str\<close> the position of the cursor in it, \<open>len\<close> the \<open>rt_ubase_t\<close> count of
  bytes left (an unsigned word, taken as 32 bits wide), \<open>envs n\<close> what the host answers
  during the \<open>n\<close>-th call of \<open>_font_cache_get\<close>. The two bytes of a glyph are read at
  \<open>str\<close> and \<open>str + 1\<close>; \<open>x1\<close> is advanced in \<open>rt_int16_t\<close>.
\<close>

function hz_draw_loop ::
  "(nat \<Rightarrow> io_env) \<Rightarrow> rtgui_gc \<Rightarrow> u8 list \<Rightarrow> int \<Rightarrow> int \<Rightarrow> nat \<Rightarrow> rtgui_hz_file_font \<Rightarrow> nat \<Rightarrow> u32 \<Rightarrow>
     rtgui_rect \<Rightarrow> dc_op list \<Rightarrow> fault + (rtgui_hz_file_font \<times> rtgui_rect \<times> dc_op list)" where
  "hz_draw_loop envs gc mem h word_bytes n font str len rect ops =
     (if len > 0 \<and> sint (x1 rect) < sint (x2 rect) then
        (case byte_at mem str of
           None \<Rightarrow> Inl OutOfBounds
         | Some b0 \<Rightarrow>
        (case byte_at mem (str + 1) of
           None \<Rightarrow> Inl OutOfBounds
         | Some b1 \<Rightarrow>
        (case font_cache_get (envs n) font (ucast b0 OR push_bit 8 (ucast b1)) of
           Inl e \<Rightarrow> Inl e
         | Inr (font_ptr, font', t) \<Rightarrow>
        (case (case font_ptr of
                 None \<Rightarrow> Inr []
               | Some bitmap \<Rightarrow> draw_i bitmap gc rect h word_bytes 0) of
           Inl e \<Rightarrow> Inl e
         | Inr px \<Rightarrow>
             hz_draw_loop envs gc mem h word_bytes (n + 1) font' (str + 2) (len - 2)
               (rect\<lparr>x1 := x1 rect + font_size font'\<rparr>) (ops @ px)))))
      else Inr (font, rect, ops))"
  by pat_completeness auto
termination
  by (relation "measure (\<lambda>(envs, gc, mem, h, word_bytes, n, font, str, len, rect, ops). length mem - str)")
    (auto simp: byte_at_def split: if_splits)

declare hz_draw_loop.simps [simp del]

text \<open>
  \<open>_rtgui_hz_file_font_draw_text\<close>: the run of \<open>len\<close> bytes at \<open>str\<close> is drawn into
  \<open>rect\<close>; the result is the font, the rectangle as the caller finds it, and the calls
  made on the drawing surface.
\<close>

definition hz_file_font_draw_text ::
  "(nat \<Rightarrow> io_env) \<Rightarrow> rtgui_hz_file_font \<Rightarrow> rtgui_gc \<Rightarrow> u8 list \<Rightarrow> nat \<Rightarrow> u32 \<Rightarrow> rtgui_rect \<Rightarrow>
     fault + (rtgui_hz_file_font \<times> rtgui_rect \<times> dc_op list)" where
  "hz_file_font_draw_text envs font gc mem str len rect =
     hz_draw_loop envs gc mem (drawing_height font rect) (row_bytes font) 0 font str len rect []"

section \<open>The rasterizer as the specification words it\<close>

text \<open>
  What the specification says of one glyph: for each row, each byte column and each of
  the 8 bits, most significant first, a foreground pixel at
  \<open>(x1 + 8 * col + bit, y1 + row)\<close> if the bit is set and that x lies left of \<open>x2\<close>;
  else, if the style asks for it, a pixel in the background colour at the same place.
  The theorems below compare the loops of the source with it.
\<close>

definition raster_pixel :: "u8 list \<Rightarrow> rtgui_gc \<Rightarrow> rtgui_rect \<Rightarrow> nat \<Rightarrow> nat \<Rightarrow> nat \<Rightarrow> nat \<Rightarrow> dc_op list" where
  "raster_pixel bitmap gc rect cols row col b =
     (if bit (bitmap ! (row * cols + col)) (7 - b) \<and>
         sint (x1 rect) + 8 * int col + int b < sint (x2 rect)
      then [Draw_point (sint (x1 rect) + 8 * int col + int b) (sint (y1 rect) + int row)]
      else if draw_background gc
      then [Draw_color_point (sint (x1 rect) + 8 * int col + int b) (sint (y1 rect) + int row)
              (background gc)]
      else [])"

definition raster_spec :: "u8 list \<Rightarrow> rtgui_gc \<Rightarrow> rtgui_rect \<Rightarrow> nat \<Rightarrow> nat \<Rightarrow> dc_op list" where
  "raster_spec bitmap gc rect rows cols =
     concat (map (\<lambda>row.
       concat (map (\<lambda>col.
         concat (map (\<lambda>b. raster_pixel bitmap gc rect cols row col b) [0..<8]))
       [0..<cols]))
     [0..<rows])"

text \<open>
  An 8 by 8 glyph whose only set bit is the first of row 0, and fonts, rectangles and
  a graphic context to instantiate the theorems with.
\<close>

definition glyph8 :: "u8 list" where
  "glyph8 = [0x80, 0, 0, 0, 0, 0, 0, 0]"

definition font8 :: rtgui_hz_file_font where
  "font8 = \<lparr>cache_root = [], cache_size = 0, font_size = 8, font_data_size = 8, fd = 3\<rparr>"

definition wide_rect :: rtgui_rect where
  "wide_rect = \<lparr>x1 = 0, y1 = 0, x2 = 100, y2 = 100\<rparr>"

definition narrow_rect :: rtgui_rect where
  "narrow_rect = \<lparr>x1 = 0, y1 = 0, x2 = 4, y2 = 8\<rparr>"

definition fill_gc :: rtgui_gc where
  "fill_gc = \<lparr>draw_background = True, background = 0xFFFFFF\<rparr>"

section \<open>Fonts whose bitmaps can be drawn\<close>

text \<open>
  A font in a cache state as above whose cached bitmaps all have the record size, and
  whose record size covers the \<open>S\<close> rows of \<open>ceil(S/8)\<close> bytes the rasterizer reads
  (the specification has \<open>R = S * ceil(S/8)\<close>). \<open>two_glyphs\<close> is a buffer holding a
  run of two glyph pairs and the terminator.
\<close>

definition font_ok :: "rtgui_hz_file_font \<Rightarrow> bool" where
  "font_ok font =
     (cache_inv font \<and>
      (\<forall>c \<in> set (cache_root font). length (hz_data c) = unat (font_data_size font)) \<and>
      unat (font_size font) * ((unat (font_size font) + 7) div 8) \<le> unat (font_data_size font))"

definition two_glyphs :: "u8 list" where
  "two_glyphs = [0xB0, 0xA1, 0xB0, 0xA2, 0]"

text \<open>
  A text that begins with a single byte from \<open>0x80\<close> and goes on with 13 letters: its
  first run is that one byte.
\<close>

definition odd_run_text :: "u8 list" where
  "odd_run_text =
     [0xB0, 0x41, 0x42, 0x43, 0x44, 0x45, 0x46, 0x47, 0x48, 0x49, 0x4A, 0x4B, 0x4C, 0x4D, 0]"

section \<open>Segmenting the transcoded text\<close>

text \<open>
  \<open>rtgui_hz_file_font_draw_text\<close> transcodes the text into a buffer (the transcoder is a
  service of the host; the buffer's content \<open>mem\<close> is what it wrote), takes its length
  with \<open>strlen\<close> into an \<open>rt_uint32_t\<close>, and walks it in the loop of lines 247 to 270.
  \<open>strlen\<close> reads up to the first zero byte and leaves the buffer when there is none.
\<close>

definition rt_strlen :: "u8 list \<Rightarrow> fault + nat" where
  "rt_strlen mem =
     (if 0 \<in> set mem then Inr (length (takeWhile (\<lambda>b. b \<noteq> 0) mem)) else Inl OutOfBounds)"

text \<open>
  The two scans, lines 250 and 262. Each reads the byte at \<open>str + len\<close> before it
  compares \<open>len\<close> with \<open>str_len\<close>. The counters are \<open>rt_uint32_t\<close>; \<open>len\<close> stays below
  \<open>str_len\<close>, so the increment does not wrap.
\<close>

function scan_ascii :: "u8 list \<Rightarrow> nat \<Rightarrow> nat \<Rightarrow> nat \<Rightarrow> fault + nat" where
  "scan_ascii mem str str_len len =
     (case byte_at mem (str + len) of
        None \<Rightarrow> Inl OutOfBounds
      | Some b \<Rightarrow>
          if b < 0x80 \<and> b \<noteq> 0 \<and> len < str_len
          then scan_ascii mem str str_len (len + 1)
          else Inr len)"
  by pat_completeness auto
termination
  by (relation "measure (\<lambda>(mem, str, str_len, len). str_len - len)") auto

declare scan_ascii.simps [simp del]

function scan_hz :: "u8 list \<Rightarrow> nat \<Rightarrow> nat \<Rightarrow> nat \<Rightarrow> fault + nat" where
  "scan_hz mem str str_len len =
     (case byte_at mem (str + len) of
        None \<Rightarrow> Inl OutOfBounds
      | Some b \<Rightarrow>
          if b \<ge> 0x80 \<and> len < str_len
          then scan_hz mem str str_len (len + 1)
          else Inr len)"
  by pat_completeness auto
termination
  by (relation "measure (\<lambda>(mem, str, str_len, len). str_len - len)") auto

declare scan_hz.simps [simp del]

text \<open>
  The outer loop. A run is what one of the two drawing calls receives: its kind and
  the \<open>len\<close> bytes at \<open>str\<close>; \<open>rtgui_font_draw\<close> gets the runs of kind \<open>ASCII\<close>,
  \<open>_rtgui_hz_file_font_draw_text\<close> those of kind \<open>DOUBLE\<close>, and neither writes \<open>str\<close>,
  \<open>len\<close> or \<open>str_len\<close>. After a scan that found nothing \<open>str\<close> and \<open>str_len\<close> stay as
  they are, which is what adding and subtracting \<open>len = 0\<close> does. The loop need not
  end (a zero byte at \<open>str\<close> with \<open>str_len > 0\<close> is consumed by neither scan), so the
  recursion is bounded by fuel and \<open>None\<close> stands for a loop that has not ended.
\<close>

datatype run_kind = ASCII | DOUBLE

fun segment_loop ::
  "nat \<Rightarrow> u8 list \<Rightarrow> nat \<Rightarrow> nat \<Rightarrow> (fault + (run_kind \<times> u8 list) list) option" where
  "segment_loop 0 mem str str_len = None"
| "segment_loop (Suc fuel) mem str str_len =
     (if str_len > 0 then
        (case scan_ascii mem str str_len 0 of
           Inl e \<Rightarrow> Some (Inl e)
         | Inr len \<Rightarrow>
        (case scan_hz mem (str + len) (str_len - len) 0 of
           Inl e \<Rightarrow> Some (Inl e)
         | Inr len2 \<Rightarrow>
        (case segment_loop fuel mem (str + len + len2) (str_len - len - len2) of
           None \<Rightarrow> None
         | Some (Inl e) \<Rightarrow> Some (Inl e)
         | Some (Inr runs) \<Rightarrow>
             Some (Inr ((if len > 0 then [(ASCII, take len (drop str mem))] else []) @
                        (if len2 > 0 then [(DOUBLE, take len2 (drop (str + len) mem))] else []) @
                        runs)))))
      else Some (Inr []))"



section \<open>Metrics\<close>

text \<open>
  \<open>rtgui_hz_file_font_get_metrics\<close>. \<open>alloc\<close> says whether \<open>rt_malloc\<close> returned a
  buffer, \<open>str\<close> is the buffer after transcoding. The product is formed in unsigned
  arithmetic and stored in the \<open>rt_uint32_t x2\<close>; the rectangle's fields are
  \<open>rt_int16_t\<close>.
\<close>

definition rtgui_hz_file_font_get_metrics ::
  "rtgui_hz_file_font \<Rightarrow> bool \<Rightarrow> u8 list \<Rightarrow> rtgui_rect \<Rightarrow> fault + rtgui_rect" where
  "rtgui_hz_file_font_get_metrics font alloc str rect =
     (if \<not> alloc then Inr rect
      else (case rt_strlen str of
              Inl e \<Rightarrow> Inl e
            | Inr n \<Rightarrow>
                (let w = (word_of_int (uint (font_size font) div 2) * of_nat n :: u32)
                 in Inr (rect\<lparr>x1 := 0, y1 := 0,
                               x2 := (if w \<ge> 0x7FFF then 0x7FFF else ucast w),
                               y2 := font_size font\<rparr>))))"


definition long_text :: "u8 list" where
  "long_text = replicate 536870912 0x41 @ [0]"

section \<open>The addressing formula\<close>

text \<open>
  C2 (as amended). With \<open>idx = 94 * ((code & 0xFF) - 0xA1) + ((code >> 8) - 0xA1)\<close>
  and file offset \<open>idx * R\<close>, glyph code \<open>0xA1A1\<close> yields index 0 and offset 0; glyph
  code \<open>0xA2A1\<close> yields index 1 and offset \<open>R\<close>; index 94 and offset \<open>94 * R\<close> belong to
  glyph code \<open>0xA1A2\<close>, whose low byte is \<open>0xA2\<close>.
\<close>

theorem addressing_formula:
  "hz_index 0xA1A1 = 0 \<and> hz_seek 0xA1A1 R = 0 \<and>
   hz_index 0xA2A1 = 1 \<and> hz_seek 0xA2A1 R = ucast R \<and>
   hz_index 0xA1A2 = 94 \<and> unat (hz_seek 0xA1A2 R) = 94 * unat R"
proof -
  have "unat (94 * (ucast R :: u32)) = 94 * unat R"
  proof -
    have "unat R < 2 ^ 16" using unsigned_less [of R] by simp
    then have "94 * unat R < 2 ^ 32" by simp
    then show ?thesis by (simp add: unat_word_ariths unsigned_ucast_eq take_bit_nat_eq_self)
  qed
  then show ?thesis by (simp add: hz_index_def hz_seek_def)
qed

text \<open>
  C2 as the spec states it fails: under the formula, and in the code, glyph code
  \<open>0xA2A1\<close> has index 1, not 94, and its offset for 32-byte records is 32, not 94 * 32.
\<close>

theorem addressing_formula_counterexample:
  "hz_index 0xA2A1 = 1 \<and> hz_index 0xA2A1 \<noteq> 94 \<and>
   hz_seek 0xA2A1 32 = 32 \<and> hz_seek 0xA2A1 32 \<noteq> 94 * 32"
  by (simp add: hz_index_def hz_seek_def)

section \<open>The cache: order, lookup, insertion\<close>

lemma compare_eq0 [simp]: "font_cache_compare a b = 0 \<longleftrightarrow> hz_id a = hz_id b"
  by (auto simp: font_cache_compare_def)

lemma compare_lt0 [simp]: "font_cache_compare a b < 0 \<longleftrightarrow> hz_id a < hz_id b"
  by (auto simp: font_cache_compare_def)

lemma compare_gt0 [simp]: "0 < font_cache_compare a b \<longleftrightarrow> hz_id b < hz_id a"
  by (auto simp: font_cache_compare_def)

lemma SPLAY_FIND_None: "SPLAY_FIND cs s = None \<longleftrightarrow> hz_id s \<notin> hz_id ` set cs"
  by (induction cs) auto

lemma SPLAY_FIND_Some: "SPLAY_FIND cs s = Some c \<Longrightarrow> c \<in> set cs \<and> hz_id c = hz_id s"
  by (induction cs) (auto split: if_splits)

lemma SPLAY_FIND_INSERT:
  "hz_id c \<notin> hz_id ` set cs \<Longrightarrow> hz_id s = hz_id c \<Longrightarrow> SPLAY_FIND (SPLAY_INSERT cs c) s = Some c"
  by (induction cs) auto

lemma set_SPLAY_INSERT:
  "hz_id c \<notin> hz_id ` set cs \<Longrightarrow> set (SPLAY_INSERT cs c) = insert c (set cs)"
  by (induction cs) auto

lemma length_SPLAY_INSERT:
  "hz_id c \<notin> hz_id ` set cs \<Longrightarrow> length (SPLAY_INSERT cs c) = Suc (length cs)"
  by (induction cs) auto

lemma length_SPLAY_INSERT_le: "length (SPLAY_INSERT cs c) \<le> Suc (length cs)"
  by (induction cs) auto

lemma keys_SPLAY_INSERT: "hz_id ` set (SPLAY_INSERT cs c) = insert (hz_id c) (hz_id ` set cs)"
  by (induction cs) auto

lemma sorted_SPLAY_INSERT:
  "sorted_wrt (<) (map hz_id cs) \<Longrightarrow> sorted_wrt (<) (map hz_id (SPLAY_INSERT cs c))"
proof (induction cs)
  case Nil
  then show ?case by simp
next
  case (Cons d ds)
  have "hz_id ` set (SPLAY_INSERT ds c) = insert (hz_id c) (hz_id ` set ds)"
    by (rule keys_SPLAY_INSERT)
  with Cons show ?case by (auto simp: image_iff) 
qed


lemma sorted_hd_Min:
  "sorted_wrt (<) (map hz_id (c # cs)) \<Longrightarrow> hz_id c = Min (hz_id ` set (c # cs))"
proof -
  assume s: "sorted_wrt (<) (map hz_id (c # cs))"
  have "Min (insert (hz_id c) (hz_id ` set cs)) = hz_id c"
  proof (rule Min_eqI)
    show "finite (insert (hz_id c) (hz_id ` set cs))" by simp
    show "hz_id c \<in> insert (hz_id c) (hz_id ` set cs)" by simp
    fix y assume "y \<in> insert (hz_id c) (hz_id ` set cs)"
    with s show "hz_id c \<le> y" by auto
  qed
  then show ?thesis by simp
qed

lemma SPLAY_REMOVE_head: "SPLAY_REMOVE (c # cs) c = cs"
  by simp

lemma put_below_max:
  assumes "cache_inv font" "length (cache_root font) < 64" "hz_id c \<notin> hz_id ` set (cache_root font)"
  shows "font_cache_put font c =
           Inr (font\<lparr>cache_root := SPLAY_INSERT (cache_root font) c,
                     cache_size := cache_size font + 1\<rparr>)"
  using assms by (simp add: font_cache_put_def cache_inv_def HZ_CACHE_MAX_def uint_nat)

lemma put_at_max:
  assumes "cache_inv font" "cache_root font = d # ds" "length (cache_root font) = 64"
  shows "font_cache_put font c =
           Inr (font\<lparr>cache_root := SPLAY_INSERT ds c, cache_size := cache_size font\<rparr>)"
  using assms by (simp add: font_cache_put_def cache_inv_def HZ_CACHE_MAX_def uint_nat)

lemma unat_succ16: "unat (w :: u16) < 64 \<Longrightarrow> unat (w + 1) = Suc (unat w)"
  by (simp add: unat_word_ariths)

lemma put_inv:
  assumes inv: "cache_inv font" and new: "hz_id c \<notin> hz_id ` set (cache_root font)"
  shows "\<exists>font'. font_cache_put font c = Inr font' \<and> cache_inv font' \<and>
           fd font' = fd font \<and> font_size font' = font_size font \<and>
           font_data_size font' = font_data_size font \<and>
           SPLAY_FIND (cache_root font') \<lparr>hz_id = hz_id c, hz_data = []\<rparr> = Some c"
proof (cases "length (cache_root font) < 64")
  case True
  have "cache_inv (font\<lparr>cache_root := SPLAY_INSERT (cache_root font) c,
                     cache_size := cache_size font + 1\<rparr>)"
    using inv new True
    by (simp add: cache_inv_def sorted_SPLAY_INSERT length_SPLAY_INSERT unat_succ16)
  then show ?thesis
    using put_below_max [OF inv True new] new by (simp add: SPLAY_FIND_INSERT)
next
  case False
  with inv have len: "length (cache_root font) = 64" by (simp add: cache_inv_def)
  then obtain d ds where ds: "cache_root font = d # ds" by (cases "cache_root font") auto
  from new ds have new': "hz_id c \<notin> hz_id ` set ds" by auto
  have "cache_inv (font\<lparr>cache_root := SPLAY_INSERT ds c, cache_size := cache_size font\<rparr>)"
    using inv len ds new'
    by (simp add: cache_inv_def sorted_SPLAY_INSERT length_SPLAY_INSERT)
  then show ?thesis
    using put_at_max [OF inv ds len] new' by (simp add: SPLAY_FIND_INSERT)
qed

lemma load_keeps_cache:
  "hz_file_load env font hz = (font1, r, t) \<Longrightarrow>
     cache_root font1 = cache_root font \<and> cache_size font1 = cache_size font \<and>
     font_size font1 = font_size font \<and> font_data_size font1 = font_data_size font"
  by (auto simp: hz_file_load_def Let_def split: if_splits option.splits)

lemma load_keeps_inv: "hz_file_load env font hz = (font1, r, t) \<Longrightarrow> cache_inv font \<Longrightarrow> cache_inv font1"
  using load_keeps_cache [of env font hz font1 r t] by (simp add: cache_inv_def)

lemma get_inv:
  assumes inv: "cache_inv font"
  shows "\<exists>r font' t. font_cache_get env font hz = Inr (r, font', t) \<and> cache_inv font'"
proof (cases "SPLAY_FIND (cache_root font) \<lparr>hz_id = hz, hz_data = []\<rparr>")
  case (Some c)
  with inv show ?thesis by (simp add: font_cache_get_def)
next
  case None
  then have new: "hz \<notin> hz_id ` set (cache_root font)" by (simp add: SPLAY_FIND_None)
  show ?thesis
  proof (cases "malloc_ok env")
    case False
    with None inv show ?thesis by (simp add: font_cache_get_def)
  next
    case True
    obtain font1 r t where l: "hz_file_load env font hz = (font1, r, t)"
      by (cases "hz_file_load env font hz") auto
    note inv1 = load_keeps_inv [OF l inv]
    show ?thesis
    proof (cases r)
      case None
      with \<open>SPLAY_FIND _ _ = None\<close> True l inv1 show ?thesis by (simp add: font_cache_get_def)
    next
      case (Some bs)
      from new load_keeps_cache [OF l]
      have "hz_id \<lparr>hz_id = hz, hz_data = bs\<rparr> \<notin> hz_id ` set (cache_root font1)" by simp
      from put_inv [OF inv1 this] obtain font2 where
        "font_cache_put font1 \<lparr>hz_id = hz, hz_data = bs\<rparr> = Inr font2" "cache_inv font2" by blast
      with \<open>SPLAY_FIND _ _ = None\<close> True l Some show ?thesis by (simp add: font_cache_get_def)
    qed
  qed
qed

lemma gets_inv:
  "cache_inv font \<Longrightarrow>
     \<exists>fonts. cache_gets font calls = Inr fonts \<and> length fonts = length calls \<and>
             (\<forall>f \<in> set fonts. cache_inv f)"
proof (induction calls arbitrary: font)
  case Nil
  then show ?case by simp
next
  case (Cons call calls)
  obtain env hz where call: "call = (env, hz)" by (cases call)
  from get_inv [OF Cons.prems, of env hz] obtain r font' t where
    g: "font_cache_get env font hz = Inr (r, font', t)" and inv': "cache_inv font'" by blast
  from Cons.IH [OF inv'] obtain fonts where
    "cache_gets font' calls = Inr fonts" "length fonts = length calls" "\<forall>f \<in> set fonts. cache_inv f"
    by blast
  with g inv' call show ?case by simp
qed


lemma sorted_head_notin:
  "sorted_wrt (<) (map hz_id (d # ds)) \<Longrightarrow> d \<notin> set ds"
  by auto

text \<open>
  C1. From a cache state as above, every sequence of calls runs without a fault, and
  after each call the count is at most 64 and equals the number of entries. When a
  miss is inserted while the cache holds 64 entries, the new cache consists of the new
  entry and the old entries but the first, whose key is the smallest of the old keys;
  the cache still holds 64 entries and the count is still 64.
\<close>

theorem cache_never_exceeds_capacity:
  assumes inv: "cache_inv font"
  shows "(\<exists>fonts. cache_gets font calls = Inr fonts \<and> length fonts = length calls \<and>
            (\<forall>f \<in> set fonts. unat (cache_size f) \<le> 64 \<and>
                              unat (cache_size f) = length (cache_root f)))
       \<and> (length (cache_root font) = 64 \<longrightarrow>
            SPLAY_FIND (cache_root font) \<lparr>hz_id = hz, hz_data = []\<rparr> = None \<longrightarrow>
            font_cache_get env font hz = Inr (Some bs, font', t) \<longrightarrow>
              set (cache_root font') =
                insert \<lparr>hz_id = hz, hz_data = bs\<rparr> (set (cache_root font) - {hd (cache_root font)}) \<and>
              hz_id (hd (cache_root font)) = Min (hz_id ` set (cache_root font)) \<and>
              hd (cache_root font) \<notin> set (cache_root font') \<and>
              length (cache_root font') = 64 \<and> unat (cache_size font') = 64)"
proof (intro conjI impI)
  from gets_inv [OF inv, of calls] obtain fonts where
    "cache_gets font calls = Inr fonts" "length fonts = length calls"
    "\<forall>f \<in> set fonts. cache_inv f" by blast
  then show "\<exists>fonts. cache_gets font calls = Inr fonts \<and> length fonts = length calls \<and>
            (\<forall>f \<in> set fonts. unat (cache_size f) \<le> 64 \<and>
                              unat (cache_size f) = length (cache_root f))"
    by (auto simp: cache_inv_def)
next
  assume len: "length (cache_root font) = 64"
    and miss: "SPLAY_FIND (cache_root font) \<lparr>hz_id = hz, hz_data = []\<rparr> = None"
    and g: "font_cache_get env font hz = Inr (Some bs, font', t)"
  from len obtain d ds where ds: "cache_root font = d # ds" by (cases "cache_root font") auto
  from miss have new: "hz \<notin> hz_id ` set (cache_root font)" by (simp add: SPLAY_FIND_None)
  from inv ds have srt: "sorted_wrt (<) (map hz_id (d # ds))" by (simp add: cache_inv_def)
  from g miss obtain font1 t1 where
    l: "hz_file_load env font hz = (font1, Some bs, t1)" and
    p: "font_cache_put font1 \<lparr>hz_id = hz, hz_data = bs\<rparr> = Inr font'"
    by (auto simp: font_cache_get_def split: if_splits prod.splits option.splits sum.splits)
  note k = load_keeps_cache [OF l]
  have inv1: "cache_inv font1" by (rule load_keeps_inv [OF l inv])
  from k ds len have ds1: "cache_root font1 = d # ds" and len1: "length (cache_root font1) = 64"
    by simp_all
  from put_at_max [OF inv1 ds1 len1, of "\<lparr>hz_id = hz, hz_data = bs\<rparr>"] p
  have f': "font' = font1\<lparr>cache_root := SPLAY_INSERT ds \<lparr>hz_id = hz, hz_data = bs\<rparr>,
                          cache_size := cache_size font1\<rparr>" by simp
  from new ds have new': "hz_id \<lparr>hz_id = hz, hz_data = bs\<rparr> \<notin> hz_id ` set ds" by auto
  have dn: "d \<notin> set ds" by (rule sorted_head_notin [OF srt])
  from new ds have dne: "d \<noteq> \<lparr>hz_id = hz, hz_data = bs\<rparr>" by auto
  show "set (cache_root font') =
          insert \<lparr>hz_id = hz, hz_data = bs\<rparr> (set (cache_root font) - {hd (cache_root font)})"
    using f' ds dn by (simp add: set_SPLAY_INSERT [OF new'])
  show "hz_id (hd (cache_root font)) = Min (hz_id ` set (cache_root font))"
    using sorted_hd_Min [OF srt] ds by simp
  show "hd (cache_root font) \<notin> set (cache_root font')"
    using f' ds dn dne by (simp add: set_SPLAY_INSERT [OF new'])
  show "length (cache_root font') = 64"
    using f' ds len by (simp add: length_SPLAY_INSERT [OF new'])
  show "unat (cache_size font') = 64"
    using f' k inv len by (simp add: cache_inv_def)
qed

theorem cache_never_exceeds_capacity_witness:
  "cache_inv full_font \<and> length (cache_root full_font) = 64 \<and>
   (\<exists>fonts. cache_gets full_font [(good_env, 0xA1A2), (good_env, 0xA1A1)] = Inr fonts \<and>
            length fonts = 2) \<and>
   (\<exists>font' t. font_cache_get good_env full_font 0xA1A2 = Inr (Some [0, 0], font', t) \<and>
              hz_id (hd (cache_root full_font)) = 1 \<and>
              hd (cache_root full_font) \<notin> set (cache_root font') \<and>
              length (cache_root font') = 64 \<and> unat (cache_size font') = 64)"
proof -
  define font' where
    "font' = full_font\<lparr>cache_root :=
               SPLAY_INSERT (tl (cache_root full_font)) \<lparr>hz_id = 0xA1A2, hz_data = [0, 0]\<rparr>\<rparr>"
  have inv: "cache_inv full_font" by code_simp
  have len: "length (cache_root full_font) = 64" by code_simp
  have miss: "SPLAY_FIND (cache_root full_font) \<lparr>hz_id = 0xA1A2, hz_data = []\<rparr> = None"
    by code_simp
  have g: "font_cache_get good_env full_font 0xA1A2 = Inr (Some [0, 0], font', [Lseek 188, Read 2])"
    unfolding font'_def by code_simp
  have h: "hz_id (hd (cache_root full_font)) = 1" by code_simp
  note inst = cache_never_exceeds_capacity [OF inv,
      of "[(good_env, 0xA1A2), (good_env, 0xA1A1)]" "0xA1A2" good_env "[0, 0]" font' "[Lseek 188, Read 2]"]
  from inst have a: "\<exists>fonts. cache_gets full_font [(good_env, 0xA1A2), (good_env, 0xA1A1)] = Inr fonts \<and>
            length fonts = 2" by auto
  from inst len miss g have b: "hd (cache_root full_font) \<notin> set (cache_root font') \<and>
              length (cache_root font') = 64 \<and> unat (cache_size font') = 64" by blast
  from inv len a b g h show ?thesis by blast
qed

section \<open>Hits, misses and failures\<close>

lemma load_result:
  "fst (snd (hz_file_load env font hz)) =
     (if (fd font < 0 \<and> open_ret env < 0) \<or> \<not> lseek_ok env \<or> \<not> read_ok env \<or>
         length (file_data env) - unat (hz_seek hz (font_data_size font)) < unat (font_data_size font)
      then None
      else Some (take (unat (font_data_size font))
                   (drop (unat (hz_seek hz (font_data_size font))) (file_data env))))"
  by (simp add: hz_file_load_def file_read_def Let_def min_def)

lemma load_ok:
  assumes "record_loads env font hz"
  shows "\<exists>font1 t. hz_file_load env font hz =
           (font1, Some (take (unat (font_data_size font))
                          (drop (unat (hz_seek hz (font_data_size font))) (file_data env))), t)"
proof -
  obtain font1 r t where l: "hz_file_load env font hz = (font1, r, t)"
    by (cases "hz_file_load env font hz") auto
  from assms have "\<not> ((fd font < 0 \<and> open_ret env < 0) \<or> \<not> lseek_ok env \<or> \<not> read_ok env \<or>
         length (file_data env) - unat (hz_seek hz (font_data_size font)) < unat (font_data_size font))"
    by (auto simp: record_loads_def)
  with load_result [of env font hz] l show ?thesis by simp
qed

lemma get_hit:
  "SPLAY_FIND (cache_root font) \<lparr>hz_id = hz, hz_data = []\<rparr> = Some c \<Longrightarrow>
     font_cache_get env font hz = Inr (Some (hz_data c), font, [])"
  by (simp add: font_cache_get_def)

lemma get_Some_cached:
  assumes inv: "cache_inv font"
    and g: "font_cache_get env font hz = Inr (Some bs, font', t)"
  shows "\<exists>c. SPLAY_FIND (cache_root font') \<lparr>hz_id = hz, hz_data = []\<rparr> = Some c \<and> hz_data c = bs"
proof (cases "SPLAY_FIND (cache_root font) \<lparr>hz_id = hz, hz_data = []\<rparr>")
  case (Some c)
  with g show ?thesis by (simp add: font_cache_get_def)
next
  case None
  then have new: "hz \<notin> hz_id ` set (cache_root font)" by (simp add: SPLAY_FIND_None)
  from g None obtain font1 t1 where
    l: "hz_file_load env font hz = (font1, Some bs, t1)" and
    p: "font_cache_put font1 \<lparr>hz_id = hz, hz_data = bs\<rparr> = Inr font'"
    by (auto simp: font_cache_get_def split: if_splits prod.splits option.splits sum.splits)
  from new load_keeps_cache [OF l]
  have "hz_id \<lparr>hz_id = hz, hz_data = bs\<rparr> \<notin> hz_id ` set (cache_root font1)" by simp
  from put_inv [OF load_keeps_inv [OF l inv] this] p show ?thesis by auto
qed

text \<open>
  C3. When the record of a glyph code is present and loads, a call of
  \<open>_font_cache_get\<close> returns a bitmap, and a second call for the same code, whatever the
  host would answer during it, returns a bitmap of the same content, leaves the font as
  it is and makes no file call.
\<close>

theorem get_twice_same_bitmap_no_io:
  assumes inv: "cache_inv font" and pres: "record_loads env1 font hz"
  shows "\<exists>bs font1 t1.
           font_cache_get env1 font hz = Inr (Some bs, font1, t1) \<and>
           font_cache_get env2 font1 hz = Inr (Some bs, font1, [])"
proof -
  have "\<exists>bs font1 t1. font_cache_get env1 font hz = Inr (Some bs, font1, t1)"
  proof (cases "SPLAY_FIND (cache_root font) \<lparr>hz_id = hz, hz_data = []\<rparr>")
    case (Some c)
    then show ?thesis by (simp add: font_cache_get_def)
  next
    case None
    then have new: "hz \<notin> hz_id ` set (cache_root font)" by (simp add: SPLAY_FIND_None)
    from load_ok [OF pres] obtain font1 t bs where l: "hz_file_load env1 font hz = (font1, Some bs, t)"
      by blast
    from new load_keeps_cache [OF l]
    have "hz_id \<lparr>hz_id = hz, hz_data = bs\<rparr> \<notin> hz_id ` set (cache_root font1)" by simp
    from put_inv [OF load_keeps_inv [OF l inv] this] obtain font2 where
      "font_cache_put font1 \<lparr>hz_id = hz, hz_data = bs\<rparr> = Inr font2" by blast
    with None l pres show ?thesis by (simp add: font_cache_get_def record_loads_def)
  qed
  then obtain bs font1 t1 where g: "font_cache_get env1 font hz = Inr (Some bs, font1, t1)" by blast
  from get_Some_cached [OF inv g] obtain c where
    "SPLAY_FIND (cache_root font1) \<lparr>hz_id = hz, hz_data = []\<rparr> = Some c" "hz_data c = bs" by blast
  then have "font_cache_get env2 font1 hz = Inr (Some bs, font1, [])"
    by (simp add: font_cache_get_def)
  with g show ?thesis by blast
qed

theorem get_twice_same_bitmap_no_io_witness:
  "cache_inv empty_font \<and> record_loads font_file_env empty_font 0xA1A1 \<and>
   (\<exists>bs font1 t1.
      font_cache_get font_file_env empty_font 0xA1A1 = Inr (Some bs, font1, t1) \<and>
      font_cache_get no_file_env font1 0xA1A1 = Inr (Some bs, font1, []))"
proof -
  have inv: "cache_inv empty_font" by (simp add: cache_inv_def empty_font_def)
  have pres: "record_loads font_file_env empty_font 0xA1A1"
    by (simp add: record_loads_def empty_font_def font_file_env_def hz_seek_def hz_index_def)
  from inv pres get_twice_same_bitmap_no_io [OF inv pres, of no_file_env] show ?thesis by blast
qed

lemma load_None_iff:
  "(\<exists>font1 t. hz_file_load env font hz = (font1, None, t)) \<longleftrightarrow>
     (fd font < 0 \<and> open_ret env < 0) \<or> \<not> lseek_ok env \<or> \<not> read_ok env \<or>
      length (file_data env) - unat (hz_seek hz (font_data_size font)) < unat (font_data_size font)"
proof -
  obtain font1 r t where l: "hz_file_load env font hz = (font1, r, t)"
    by (cases "hz_file_load env font hz") auto
  with load_result [of env font hz] show ?thesis by (simp split: if_splits)
qed

text \<open>
  C4. A call of \<open>_font_cache_get\<close> returns \<open>RT_NULL\<close> exactly when the code is not cached
  and the load fails (the allocation fails, the file cannot be opened, the seek fails,
  or the read fails or is short), and returns a bitmap otherwise; when it returns
  \<open>RT_NULL\<close> the entries of the cache and the count are as they were.
\<close>

theorem get_none_iff_load_fails:
  assumes inv: "cache_inv font"
  shows "((\<exists>font' t. font_cache_get env font hz = Inr (None, font', t)) \<longleftrightarrow>
            SPLAY_FIND (cache_root font) \<lparr>hz_id = hz, hz_data = []\<rparr> = None \<and> load_fails env font hz)
       \<and> ((\<exists>bs font' t. font_cache_get env font hz = Inr (Some bs, font', t)) \<longleftrightarrow>
            \<not> (SPLAY_FIND (cache_root font) \<lparr>hz_id = hz, hz_data = []\<rparr> = None \<and> load_fails env font hz))
       \<and> (font_cache_get env font hz = Inr (None, font', t) \<longrightarrow>
            cache_root font' = cache_root font \<and> cache_size font' = cache_size font)"
proof -
  let ?miss = "SPLAY_FIND (cache_root font) \<lparr>hz_id = hz, hz_data = []\<rparr> = None"
  obtain font1 r t1 where l: "hz_file_load env font hz = (font1, r, t1)"
    by (cases "hz_file_load env font hz") auto
  have rN: "r = None \<longleftrightarrow> (fd font < 0 \<and> open_ret env < 0) \<or> \<not> lseek_ok env \<or> \<not> read_ok env \<or>
      length (file_data env) - unat (hz_seek hz (font_data_size font)) < unat (font_data_size font)"
    using load_None_iff [of env font hz] l by auto
  from get_inv [OF inv, of env hz] obtain r' f' t' where
    g: "font_cache_get env font hz = Inr (r', f', t')" by blast
  have r': "r' = None \<longleftrightarrow> ?miss \<and> load_fails env font hz"
    using g l rN
    by (auto simp: font_cache_get_def load_fails_def split: option.splits if_splits sum.splits)
  have keep: "r' = None \<Longrightarrow> cache_root f' = cache_root font \<and> cache_size f' = cache_size font"
    using g l load_keeps_cache [OF l]
    by (auto simp: font_cache_get_def split: option.splits if_splits sum.splits)
  from g r' keep show ?thesis by auto
qed

theorem get_none_iff_load_fails_witness:
  "cache_inv empty_font \<and> load_fails no_file_env empty_font 0xA1A1 \<and>
   (\<exists>font' t. font_cache_get no_file_env empty_font 0xA1A1 = Inr (None, font', t))"
proof -
  have inv: "cache_inv empty_font" by (simp add: cache_inv_def empty_font_def)
  have f: "load_fails no_file_env empty_font 0xA1A1"
    by (simp add: load_fails_def empty_font_def no_file_env_def)
  have m: "SPLAY_FIND (cache_root empty_font) \<lparr>hz_id = 0xA1A1, hz_data = []\<rparr> = None"
    by (simp add: empty_font_def)
  from inv f m get_none_iff_load_fails [OF inv, of no_file_env "0xA1A1"] show ?thesis by blast
qed

section \<open>The rasterizer\<close>

lemma bit_test: "((drop_bit n (b :: u8) AND 0x01) \<noteq> 0) = bit b n"
  by (simp add: bit_iff_odd_drop_bit and_one_eq mod_2_eq_odd)

lemma byte_at_int_nat: "n < length mem \<Longrightarrow> byte_at_int mem (int n) = Some (mem ! n)"
  by (simp add: byte_at_int_def)

lemma draw_bit_pixel:
  "k < 8 \<Longrightarrow> byte_at_int bitmap (int i * int wb + int j) = Some b \<Longrightarrow>
     draw_bit gc rect b (int i) (int j) (int k) = raster_pixel bitmap gc rect wb i j k"
proof -
  assume k: "k < 8" and b: "byte_at_int bitmap (int i * int wb + int j) = Some b"
  have idx: "nat (int i * int wb + int j) = i * wb + j"
    by (simp add: nat_add_distrib nat_mult_distrib)
  from b have "b = bitmap ! (i * wb + j)"
    by (simp add: byte_at_int_def idx split: if_splits)
  moreover from k have "nat (7 - int k) = 7 - k" by simp
  ultimately show ?thesis
    by (simp add: draw_bit_def raster_pixel_def bit_test)
qed

lemma draw_k_bits:
  assumes b: "byte_at_int bitmap (int i * int wb + int j) = Some b"
  shows "k \<le> 8 \<Longrightarrow> draw_k bitmap gc rect (int wb) (int i) (int j) (int k) =
           Inr (concat (map (\<lambda>b. raster_pixel bitmap gc rect wb i j b) [k..<8]))"
proof (induction "8 - k" arbitrary: k)
  case 0
  then have "k = 8" by simp
  then show ?case by (subst draw_k.simps) simp
next
  case (Suc m)
  then have k: "k < 8" and m: "m = 8 - Suc k" by simp_all
  have rec: "draw_k bitmap gc rect (int wb) (int i) (int j) (int k + 1) =
          Inr (concat (map (\<lambda>b. raster_pixel bitmap gc rect wb i j b) [Suc k..<8]))"
    using Suc.hyps(1) [OF m] k by (simp add: add.commute)
  have "[k..<8] = k # [Suc k..<8]" using k by (simp add: upt_conv_Cons)
  then show ?case
    using k b rec draw_bit_pixel [OF k b, of gc rect]
    by (subst draw_k.simps) simp
qed

lemma draw_j_cols:
  assumes inb: "\<And>col. col < wb \<Longrightarrow> i * wb + col < length bitmap"
  shows "j \<le> wb \<Longrightarrow> draw_j bitmap gc rect (int wb) (int i) (int j) =
           Inr (concat (map (\<lambda>col.
                  concat (map (\<lambda>b. raster_pixel bitmap gc rect wb i col b) [0..<8])) [j..<wb]))"
proof (induction "wb - j" arbitrary: j)
  case 0
  then have "j = wb" by simp
  then show ?case by (subst draw_j.simps) simp
next
  case (Suc m)
  then have j: "j < wb" and m: "m = wb - Suc j" by simp_all
  have rec: "draw_j bitmap gc rect (int wb) (int i) (int j + 1) =
          Inr (concat (map (\<lambda>col.
                  concat (map (\<lambda>b. raster_pixel bitmap gc rect wb i col b) [0..<8])) [Suc j..<wb]))"
    using Suc.hyps(1) [OF m] j by (simp add: add.commute)
  have idx: "int i * int wb + int j = int (i * wb + j)" by simp
  have b: "byte_at_int bitmap (int i * int wb + int j) = Some (bitmap ! (i * wb + j))"
    unfolding idx by (rule byte_at_int_nat [OF inb [OF j]])
  have k0: "draw_k bitmap gc rect (int wb) (int i) (int j) 0 =
          Inr (concat (map (\<lambda>b. raster_pixel bitmap gc rect wb i j b) [0..<8]))"
    using draw_k_bits [OF b, of 0 gc rect] by simp
  have "[j..<wb] = j # [Suc j..<wb]" using j by (simp add: upt_conv_Cons)
  then show ?case
    using j rec k0 by (subst draw_j.simps) simp
qed

lemma draw_i_rows:
  assumes inb: "h * wb \<le> length bitmap"
  shows "i \<le> h \<Longrightarrow> draw_i bitmap gc rect (int h) (int wb) (int i) =
           Inr (concat (map (\<lambda>row. concat (map (\<lambda>col.
                  concat (map (\<lambda>b. raster_pixel bitmap gc rect wb row col b) [0..<8])) [0..<wb]))
                [i..<h]))"
proof (induction "h - i" arbitrary: i)
  case 0
  then have "i = h" by simp
  then show ?case by (subst draw_i.simps) simp
next
  case (Suc m)
  then have i: "i < h" and m: "m = h - Suc i" by simp_all
  have rec: "draw_i bitmap gc rect (int h) (int wb) (int i + 1) =
           Inr (concat (map (\<lambda>row. concat (map (\<lambda>col.
                  concat (map (\<lambda>b. raster_pixel bitmap gc rect wb row col b) [0..<8])) [0..<wb]))
                [Suc i..<h]))"
    using Suc.hyps(1) [OF m] i by (simp add: add.commute)
  have inb': "i * wb + col < length bitmap" if "col < wb" for col
  proof -
    from that have "i * wb + col < Suc i * wb" by simp
    also have "\<dots> \<le> h * wb" using i by (intro mult_le_mono1) simp
    finally show ?thesis using inb by simp
  qed
  have j0: "draw_j bitmap gc rect (int wb) (int i) 0 =
           Inr (concat (map (\<lambda>col.
                  concat (map (\<lambda>b. raster_pixel bitmap gc rect wb i col b) [0..<8])) [0..<wb]))"
    using draw_j_cols [of wb i bitmap 0 gc rect] inb' by simp
  have "[i..<h] = i # [Suc i..<h]" using i by (simp add: upt_conv_Cons)
  then show ?case
    using i rec j0 by (subst draw_i.simps) simp
qed

lemma draw_i_raster:
  "h * wb \<le> length bitmap \<Longrightarrow>
     draw_i bitmap gc rect (int h) (int wb) 0 = Inr (raster_spec bitmap gc rect h wb)"
  using draw_i_rows [of h wb bitmap 0 gc rect] by (simp add: raster_spec_def)

lemma draw_i_neg: "h \<le> 0 \<Longrightarrow> draw_i bitmap gc rect h wb 0 = Inr []"
  by (subst draw_i.simps) simp


lemma drawing_height_min:
  "drawing_height font rect = min (uint (font_size font)) (sint (y2 rect) - sint (y1 rect))"
  by (simp add: drawing_height_def min_def)

lemma row_bytes_nat: "row_bytes font = int ((unat (font_size font) + 7) div 8)"
  by (simp add: row_bytes_def zdiv_int)

lemma draw_i_spec:
  assumes "nat h * wb \<le> length bitmap"
  shows "draw_i bitmap gc rect h (int wb) 0 = Inr (raster_spec bitmap gc rect (nat h) wb)"
proof (cases "0 \<le> h")
  case True
  then have "h = int (nat h)" by simp
  with draw_i_raster [OF assms, of gc rect] show ?thesis by simp
next
  case False
  then have "nat h = 0" "h \<le> 0" by simp_all
  then show ?thesis by (simp add: draw_i_neg raster_spec_def)
qed

lemma upt8: "[0..<8] = [0, 1, 2, 3, 4, 5, 6, 7]"
  by (simp add: upt_rec)

lemma glyph8_counts:
  assumes "sint (x1 rect) < sint (x2 rect)"
  shows "filter is_point (raster_spec glyph8 gc rect 8 1) = [Draw_point (sint (x1 rect)) (sint (y1 rect))] \<and>
         length (filter is_color_point (raster_spec glyph8 gc rect 8 1)) = (if draw_background gc then 63 else 0)"
  using assms
  by (simp add: raster_spec_def raster_pixel_def glyph8_def upt8)

lemma raster_bg_member:
  assumes "draw_background gc" "row < rows" "col < cols" "b < 8"
    and "\<not> bit (bitmap ! (row * cols + col)) (7 - b) \<or>
         sint (x2 rect) \<le> sint (x1 rect) + 8 * int col + int b"
  shows "Draw_color_point (sint (x1 rect) + 8 * int col + int b) (sint (y1 rect) + int row)
           (background gc) \<in> set (raster_spec bitmap gc rect rows cols)"
proof -
  have "raster_pixel bitmap gc rect cols row col b =
          [Draw_color_point (sint (x1 rect) + 8 * int col + int b) (sint (y1 rect) + int row)
             (background gc)]"
    using assms by (auto simp: raster_pixel_def)
  then have "Draw_color_point (sint (x1 rect) + 8 * int col + int b) (sint (y1 rect) + int row)
           (background gc) \<in> set (raster_pixel bitmap gc rect cols row col b)" by simp
  with assms(2-4) show ?thesis
    unfolding raster_spec_def set_concat set_map by fastforce
qed

lemma raster_fg_member:
  assumes "row < rows" "col < cols" "b < 8"
    and "bit (bitmap ! (row * cols + col)) (7 - b)"
    and "sint (x1 rect) + 8 * int col + int b < sint (x2 rect)"
  shows "Draw_point (sint (x1 rect) + 8 * int col + int b) (sint (y1 rect) + int row)
           \<in> set (raster_spec bitmap gc rect rows cols)"
proof -
  have "Draw_point (sint (x1 rect) + 8 * int col + int b) (sint (y1 rect) + int row)
           \<in> set (raster_pixel bitmap gc rect cols row col b)"
    using assms by (simp add: raster_pixel_def)
  with assms(1-3) show ?thesis
    unfolding raster_spec_def set_concat set_map by fastforce
qed

lemma raster_bg_length:
  assumes "draw_background gc"
  shows "length (raster_spec bitmap gc rect rows cols) = rows * cols * 8"
proof -
  have one: "length (raster_pixel bitmap gc rect cols row col b) = 1" for row col b
    using assms by (simp add: raster_pixel_def)
  show ?thesis
    by (simp add: raster_spec_def length_concat comp_def one sum_list_triv)
qed


text \<open>
  C7. When the bitmap holds the rows that are drawn, the loops of the source issue
  exactly the calls of \<open>raster_spec\<close>: rows \<open>0..min(S, y2 - y1)\<close>, byte columns
  \<open>0..ceil(S/8)\<close>, bits \<open>0..8\<close> most significant first, a foreground pixel exactly where
  the bit is set and \<open>x1 + 8 * col + bit < x2\<close>, otherwise a background pixel when the
  style is set. For the 8 by 8 glyph with the single bit at row 0, column 0, in a
  rectangle at least 8 high with \<open>x1 < x2\<close>, that is one foreground pixel, at
  \<open>(x1, y1)\<close>, and 63 background pixels when the background is drawn.
\<close>

theorem rasterizer_visits_and_paints:
  assumes "nat (drawing_height font rect) * nat (row_bytes font) \<le> length bitmap"
  shows "draw_i bitmap gc rect (drawing_height font rect) (row_bytes font) 0 =
           Inr (raster_spec bitmap gc rect
                  (nat (min (uint (font_size font)) (sint (y2 rect) - sint (y1 rect))))
                  ((unat (font_size font) + 7) div 8))
       \<and> (font_size font = 8 \<longrightarrow> sint (y1 rect) + 8 \<le> sint (y2 rect) \<longrightarrow>
            sint (x1 rect) < sint (x2 rect) \<longrightarrow>
            (\<exists>ops. draw_i glyph8 gc rect (drawing_height font rect) (row_bytes font) 0 = Inr ops \<and>
                   filter is_point ops = [Draw_point (sint (x1 rect)) (sint (y1 rect))] \<and>
                   length (filter is_color_point ops) = (if draw_background gc then 63 else 0)))"
proof (intro conjI impI)
  from assms have "nat (drawing_height font rect) * ((unat (font_size font) + 7) div 8) \<le> length bitmap"
    by (simp add: row_bytes_nat)
  from draw_i_spec [OF this, of gc rect]
  show "draw_i bitmap gc rect (drawing_height font rect) (row_bytes font) 0 =
           Inr (raster_spec bitmap gc rect
                  (nat (min (uint (font_size font)) (sint (y2 rect) - sint (y1 rect))))
                  ((unat (font_size font) + 7) div 8))"
    by (simp add: row_bytes_nat drawing_height_min)
next
  assume s: "font_size font = 8" and y: "sint (y1 rect) + 8 \<le> sint (y2 rect)"
    and x: "sint (x1 rect) < sint (x2 rect)"
  from s y have h: "drawing_height font rect = 8" by (simp add: drawing_height_def)
  from s have w: "row_bytes font = int 1" by (simp add: row_bytes_def)
  have "nat 8 * 1 \<le> length glyph8" by (simp add: glyph8_def)
  from draw_i_spec [OF this, of gc rect]
  have "draw_i glyph8 gc rect (drawing_height font rect) (row_bytes font) 0 =
          Inr (raster_spec glyph8 gc rect 8 1)"
    unfolding h w by simp
  with glyph8_counts [OF x, of gc]
  show "\<exists>ops. draw_i glyph8 gc rect (drawing_height font rect) (row_bytes font) 0 = Inr ops \<and>
                   filter is_point ops = [Draw_point (sint (x1 rect)) (sint (y1 rect))] \<and>
                   length (filter is_color_point ops) = (if draw_background gc then 63 else 0)"
    by simp
qed

theorem rasterizer_visits_and_paints_witness:
  "nat (drawing_height font8 wide_rect) * nat (row_bytes font8) \<le> length glyph8 \<and>
   font_size font8 = 8 \<and> sint (y1 wide_rect) + 8 \<le> sint (y2 wide_rect) \<and>
   sint (x1 wide_rect) < sint (x2 wide_rect) \<and>
   draw_i glyph8 fill_gc wide_rect (drawing_height font8 wide_rect) (row_bytes font8) 0 =
     Inr (raster_spec glyph8 fill_gc wide_rect 8 1) \<and>
   (\<exists>ops. draw_i glyph8 fill_gc wide_rect (drawing_height font8 wide_rect) (row_bytes font8) 0 = Inr ops \<and>
          filter is_point ops = [Draw_point 0 0] \<and> length (filter is_color_point ops) = 63)"
proof -
  have a: "nat (drawing_height font8 wide_rect) * nat (row_bytes font8) \<le> length glyph8"
    by (simp add: drawing_height_def row_bytes_def font8_def wide_rect_def glyph8_def)
  have b: "font_size font8 = 8" "sint (y1 wide_rect) + 8 \<le> sint (y2 wide_rect)"
    "sint (x1 wide_rect) < sint (x2 wide_rect)" "draw_background fill_gc"
    "sint (x1 wide_rect) = 0" "sint (y1 wide_rect) = 0" "sint (y2 wide_rect) = 100"
    by (simp_all add: font8_def wide_rect_def fill_gc_def)
  from a b rasterizer_visits_and_paints [OF a, of fill_gc] show ?thesis
    by auto
qed

text \<open>
  C10. With the background style set, every visited bit position paints one pixel, and
  each position whose bit is unset, or whose bit is set but whose x is not left of
  \<open>x2\<close>, paints a background pixel at \<open>(x1 + 8 * col + bit, y1 + row)\<close>: the test
  against \<open>x2\<close> guards the foreground only.
\<close>

theorem background_not_clipped:
  assumes len: "nat (drawing_height font rect) * nat (row_bytes font) \<le> length bitmap"
    and bg: "draw_background gc"
  shows "\<exists>ops. draw_i bitmap gc rect (drawing_height font rect) (row_bytes font) 0 = Inr ops \<and>
           length ops = nat (drawing_height font rect) * nat (row_bytes font) * 8 \<and>
           (\<forall>row col b.
              row < nat (drawing_height font rect) \<longrightarrow> col < nat (row_bytes font) \<longrightarrow> b < 8 \<longrightarrow>
              (\<not> bit (bitmap ! (row * nat (row_bytes font) + col)) (7 - b) \<or>
               sint (x2 rect) \<le> sint (x1 rect) + 8 * int col + int b) \<longrightarrow>
              Draw_color_point (sint (x1 rect) + 8 * int col + int b) (sint (y1 rect) + int row)
                (background gc) \<in> set ops)"
proof -
  let ?h = "nat (drawing_height font rect)" and ?w = "nat (row_bytes font)"
  have w: "row_bytes font = int ?w" by (simp add: row_bytes_nat)
  from len have d: "draw_i bitmap gc rect (drawing_height font rect) (row_bytes font) 0 =
      Inr (raster_spec bitmap gc rect ?h ?w)"
    using draw_i_spec [of "drawing_height font rect" ?w bitmap gc rect] w by simp
  show ?thesis
    unfolding d using raster_bg_length [OF bg, of bitmap rect ?h ?w] raster_bg_member [OF bg]
    by blast
qed

theorem background_not_clipped_witness:
  "nat (drawing_height font8 narrow_rect) * nat (row_bytes font8) \<le> length (replicate 8 (0xFF :: u8)) \<and>
   draw_background fill_gc \<and> sint (x2 narrow_rect) = 4 \<and>
   (\<exists>ops. draw_i (replicate 8 0xFF) fill_gc narrow_rect (drawing_height font8 narrow_rect)
            (row_bytes font8) 0 = Inr ops \<and>
          length ops = 64 \<and>
          Draw_color_point 5 0 (background fill_gc) \<in> set ops)"
proof -
  have h: "drawing_height font8 narrow_rect = 8" "row_bytes font8 = 1"
    by (simp_all add: drawing_height_def row_bytes_def font8_def narrow_rect_def)
  have a: "nat (drawing_height font8 narrow_rect) * nat (row_bytes font8) \<le> length (replicate 8 (0xFF :: u8))"
    by (simp add: h)
  have b: "draw_background fill_gc" by (simp add: fill_gc_def)
  have c: "sint (x2 narrow_rect) = 4" "sint (x1 narrow_rect) = 0" "sint (y1 narrow_rect) = 0"
    by (simp_all add: narrow_rect_def)
  from background_not_clipped [OF a b] obtain ops where
    d: "draw_i (replicate 8 0xFF) fill_gc narrow_rect (drawing_height font8 narrow_rect)
            (row_bytes font8) 0 = Inr ops"
    and l: "length ops = nat (drawing_height font8 narrow_rect) * nat (row_bytes font8) * 8"
    and m: "\<And>row col b. row < nat (drawing_height font8 narrow_rect) \<Longrightarrow> col < nat (row_bytes font8) \<Longrightarrow> b < 8 \<Longrightarrow>
              (\<not> bit (replicate 8 (0xFF :: u8) ! (row * nat (row_bytes font8) + col)) (7 - b) \<or>
               sint (x2 narrow_rect) \<le> sint (x1 narrow_rect) + 8 * int col + int b) \<Longrightarrow>
              Draw_color_point (sint (x1 narrow_rect) + 8 * int col + int b) (sint (y1 narrow_rect) + int row)
                (background fill_gc) \<in> set ops"
    by blast
  have "Draw_color_point (sint (x1 narrow_rect) + 8 * int 0 + int 5) (sint (y1 narrow_rect) + int 0)
                (background fill_gc) \<in> set ops"
    by (rule m) (simp_all add: h c)
  then have "Draw_color_point 5 0 (background fill_gc) \<in> set ops" by (simp add: c)
  with a b c d l show ?thesis by (simp add: h)
qed

section \<open>The loop over the glyphs of a run\<close>

lemma set_SPLAY_INSERT_sub: "set (SPLAY_INSERT cs c) \<subseteq> insert c (set cs)"
  by (induction cs) auto

lemma set_SPLAY_REMOVE_sub: "set (SPLAY_REMOVE cs c) \<subseteq> set cs"
  by (induction cs) auto

lemma put_entries:
  assumes "font_cache_put font c = Inr font'"
  shows "set (cache_root font') \<subseteq> insert c (set (cache_root font)) \<and>
         font_size font' = font_size font \<and> font_data_size font' = font_data_size font"
proof (cases "uint (cache_size font) \<ge> HZ_CACHE_MAX")
  case True
  with assms obtain left where l: "leftmost (cache_root font) = Inr left"
    and f: "font' = font\<lparr>cache_root := SPLAY_INSERT (SPLAY_REMOVE (cache_root font) left) c,
                          cache_size := cache_size font - 1 + 1\<rparr>"
    by (auto simp: font_cache_put_def split: sum.splits)
  have "set (SPLAY_INSERT (SPLAY_REMOVE (cache_root font) left) c)
          \<subseteq> insert c (set (SPLAY_REMOVE (cache_root font) left))"
    by (rule set_SPLAY_INSERT_sub)
  also have "\<dots> \<subseteq> insert c (set (cache_root font))"
    using set_SPLAY_REMOVE_sub [of "cache_root font" left] by auto
  finally show ?thesis using f by simp
next
  case False
  with assms have "font' = font\<lparr>cache_root := SPLAY_INSERT (cache_root font) c,
                          cache_size := cache_size font + 1\<rparr>"
    by (simp add: font_cache_put_def)
  then show ?thesis using set_SPLAY_INSERT_sub [of "cache_root font" c] by simp
qed

lemma load_length:
  assumes "hz_file_load env font hz = (font1, Some bs, t)"
  shows "length bs = unat (font_data_size font)"
  using assms
  by (simp add: hz_file_load_def Let_def split: if_splits option.splits)

lemma get_cases:
  assumes "font_cache_get env font hz = Inr (r, font', t)"
  shows "(\<exists>c. SPLAY_FIND (cache_root font) \<lparr>hz_id = hz, hz_data = []\<rparr> = Some c \<and>
              r = Some (hz_data c) \<and> font' = font)
       \<or> (r = None \<and> cache_root font' = cache_root font \<and> cache_size font' = cache_size font \<and>
           font_size font' = font_size font \<and> font_data_size font' = font_data_size font)
       \<or> (\<exists>font1 bs t1. hz_file_load env font hz = (font1, Some bs, t1) \<and> r = Some bs \<and>
              font_cache_put font1 \<lparr>hz_id = hz, hz_data = bs\<rparr> = Inr font')"
proof (cases "SPLAY_FIND (cache_root font) \<lparr>hz_id = hz, hz_data = []\<rparr>")
  case (Some c)
  with assms show ?thesis by (simp add: font_cache_get_def)
next
  case None
  obtain font1 r1 t1 where l: "hz_file_load env font hz = (font1, r1, t1)"
    by (cases "hz_file_load env font hz") auto
  note k = load_keeps_cache [OF l]
  show ?thesis
  proof (cases "malloc_ok env")
    case False
    with None assms show ?thesis by (simp add: font_cache_get_def)
  next
    case True
    show ?thesis
    proof (cases r1)
      case None
      with \<open>SPLAY_FIND _ _ = None\<close> True l k assms show ?thesis
        by (auto simp: font_cache_get_def)
    next
      case (Some bs)
      with \<open>SPLAY_FIND _ _ = None\<close> True l assms show ?thesis
        by (auto simp: font_cache_get_def split: sum.splits)
    qed
  qed
qed

lemma get_font_ok:
  assumes ok: "font_ok font"
  shows "\<exists>r font' t. font_cache_get env font hz = Inr (r, font', t) \<and> font_ok font' \<and>
           font_size font' = font_size font \<and>
           (\<forall>bitmap. r = Some bitmap \<longrightarrow> length bitmap = unat (font_data_size font))"
proof -
  from ok have inv: "cache_inv font" by (simp add: font_ok_def)
  from get_inv [OF inv, of env hz] obtain r font' t where
    g: "font_cache_get env font hz = Inr (r, font', t)" and inv': "cache_inv font'" by blast
  from get_cases [OF g]
  have "font_ok font' \<and> font_size font' = font_size font \<and>
           (\<forall>bitmap. r = Some bitmap \<longrightarrow> length bitmap = unat (font_data_size font))"
  proof (elim disjE exE conjE)
    fix c
    assume "SPLAY_FIND (cache_root font) \<lparr>hz_id = hz, hz_data = []\<rparr> = Some c"
      "r = Some (hz_data c)" "font' = font"
    with ok SPLAY_FIND_Some [of "cache_root font" _ c] show ?thesis
      by (auto simp: font_ok_def)
  next
    assume "r = None" "cache_root font' = cache_root font" "cache_size font' = cache_size font"
      "font_size font' = font_size font" "font_data_size font' = font_data_size font"
    with ok inv' show ?thesis by (simp add: font_ok_def)
  next
    fix font1 bs t1
    assume l: "hz_file_load env font hz = (font1, Some bs, t1)" and r: "r = Some bs"
      and p: "font_cache_put font1 \<lparr>hz_id = hz, hz_data = bs\<rparr> = Inr font'"
    note k = load_keeps_cache [OF l] and len = load_length [OF l] and e = put_entries [OF p]
    from e k len ok have "\<forall>c \<in> set (cache_root font'). length (hz_data c) = unat (font_data_size font')"
      by (auto simp: font_ok_def)
    with e k len ok inv' r show ?thesis by (simp add: font_ok_def)
  qed
  with g show ?thesis by blast
qed

lemma glyph_draws:
  assumes h: "h \<le> uint (S :: u16)" and len: "unat S * ((unat S + 7) div 8) \<le> length bitmap"
  shows "draw_i bitmap gc rect h (int ((unat S + 7) div 8)) 0 =
           Inr (raster_spec bitmap gc rect (nat h) ((unat S + 7) div 8))"
proof -
  from h have "nat h \<le> unat S" by (simp add: nat_le_iff)
  then have "nat h * ((unat S + 7) div 8) \<le> unat S * ((unat S + 7) div 8)"
    by (rule mult_le_mono1)
  from this len have "nat h * ((unat S + 7) div 8) \<le> length bitmap" by (rule order_trans)
  then show ?thesis by (rule draw_i_spec)
qed


lemma sint_add_uint16:
  fixes w s :: "16 word"
  assumes "sint w + uint s \<le> 32767"
  shows "sint (w + s) = sint w + uint s"
proof -
  have "w + s = word_of_int (sint w + uint s)" by simp
  then have "sint (w + s) = signed_take_bit 15 (sint w + uint s)"
    by (simp only: sint_sbintrunc') simp
  moreover have "- (2 ^ 15) \<le> sint w + uint s"
  proof (rule add_increasing2)
    show "0 \<le> uint s" by simp
    show "- (2 ^ 15) \<le> sint w" using sint_ge [of w] by simp
  qed
  moreover have "sint w + uint s < 2 ^ 15" using assms by simp
  ultimately show ?thesis by (simp add: signed_take_bit_int_eq_self)
qed

lemma len_ne0: "0 < n \<Longrightarrow> 2 * n < 2 ^ 32 \<Longrightarrow> (of_nat (2 * n) :: u32) \<noteq> 0"
  using of_nat_neq_0 [of "2 * n", where 'a = 32] by simp

lemma len_sub2: "(of_nat (2 * Suc n) :: u32) - 2 = of_nat (2 * n)"
  by simp

lemma hz_draw_loop_exit:
  "len = 0 \<or> sint (x2 rect) \<le> sint (x1 rect) \<Longrightarrow>
     hz_draw_loop envs gc mem h wb c font str len rect ops = Inr (font, rect, ops)"
  by (subst hz_draw_loop.simps) auto

lemma hz_draw_loop_step:
  assumes "len \<noteq> 0" "sint (x1 rect) < sint (x2 rect)"
    and "byte_at mem str = Some b0" "byte_at mem (str + 1) = Some b1"
    and "font_cache_get (envs c) font (ucast b0 OR push_bit 8 (ucast b1)) = Inr (r, font', t)"
    and "(case r of None \<Rightarrow> Inr [] | Some bitmap \<Rightarrow> draw_i bitmap gc rect h wb 0) = Inr px"
  shows "hz_draw_loop envs gc mem h wb c font str len rect ops =
           hz_draw_loop envs gc mem h wb (c + 1) font' (str + 2) (len - 2)
             (rect\<lparr>x1 := x1 rect + font_size font'\<rparr>) (ops @ px)"
  using assms by (subst hz_draw_loop.simps) (simp add: word_gt_0)

lemma hz_draw_loop_run:
  fixes S :: u16
  assumes h: "h \<le> uint S" and wb: "wb = int ((unat S + 7) div 8)"
  shows "font_ok font \<Longrightarrow> font_size font = S \<Longrightarrow> str + 2 * n \<le> length mem \<Longrightarrow> 2 * n < 2 ^ 32 \<Longrightarrow>
     \<exists>font' px k.
        hz_draw_loop envs gc mem h wb c font str (of_nat (2 * n)) rect ops =
          Inr (font', rect\<lparr>x1 := x1 rect + of_nat k * S\<rparr>, ops @ px) \<and>
        k \<le> n \<and>
        (k = n \<or> sint (x2 rect) \<le> sint (x1 rect + of_nat k * S)) \<and>
        (\<forall>j<k. sint (x1 rect + of_nat j * S) < sint (x2 rect)) \<and>
        font_ok font' \<and> font_size font' = S"
proof (induction n arbitrary: font str c rect ops)
  case 0
  have "hz_draw_loop envs gc mem h wb c font str (of_nat (2 * 0)) rect ops = Inr (font, rect, ops)"
    by (rule hz_draw_loop_exit) simp
  with 0 show ?case by (intro exI [of _ font] exI [of _ "[]"] exI [of _ 0]) simp
next
  case (Suc n)
  show ?case
  proof (cases "sint (x1 rect) < sint (x2 rect)")
    case False
    then have "hz_draw_loop envs gc mem h wb c font str (of_nat (2 * Suc n)) rect ops =
        Inr (font, rect, ops)"
      by (intro hz_draw_loop_exit) simp
    with False Suc.prems show ?thesis
      by (intro exI [of _ font] exI [of _ "[]"] exI [of _ 0]) simp
  next
    case True
    from Suc.prems have len: "(of_nat (2 * Suc n) :: u32) \<noteq> 0"
      by (intro len_ne0) simp_all
    from Suc.prems have b0: "byte_at mem str = Some (mem ! str)"
      and b1: "byte_at mem (str + 1) = Some (mem ! (str + 1))"
      by (simp_all add: byte_at_def)
    let ?hz = "ucast (mem ! str) OR push_bit 8 (ucast (mem ! (str + 1))) :: u16"
    from get_font_ok [OF Suc.prems(1), of "envs c" ?hz] obtain r font1 t where
      g: "font_cache_get (envs c) font ?hz = Inr (r, font1, t)" and ok1: "font_ok font1"
      and s1: "font_size font1 = font_size font"
      and bl: "\<And>bitmap. r = Some bitmap \<Longrightarrow> length bitmap = unat (font_data_size font)"
      by blast
    have "\<exists>px. (case r of None \<Rightarrow> Inr [] | Some bitmap \<Rightarrow> draw_i bitmap gc rect h wb 0) = Inr px"
    proof (cases r)
      case None
      then show ?thesis by simp
    next
      case (Some bitmap)
      from Suc.prems(1,2) bl [OF Some] have "unat S * ((unat S + 7) div 8) \<le> length bitmap"
        by (simp add: font_ok_def)
      from glyph_draws [OF h this, of gc rect] Some show ?thesis by (simp add: wb)
    qed
    then obtain px where
      d: "(case r of None \<Rightarrow> Inr [] | Some bitmap \<Rightarrow> draw_i bitmap gc rect h wb 0) = Inr px" ..
    let ?rect1 = "rect\<lparr>x1 := x1 rect + S\<rparr>"
    have step: "hz_draw_loop envs gc mem h wb c font str (of_nat (2 * Suc n)) rect ops =
           hz_draw_loop envs gc mem h wb (c + 1) font1 (str + 2) (of_nat (2 * n)) ?rect1 (ops @ px)"
      using hz_draw_loop_step [where envs = envs and c = c and ops = ops, OF len True b0 b1 g d] s1 Suc.prems(2)
      by (simp only: len_sub2)
    from Suc.prems s1 have p: "font_size font1 = S" "str + 2 + 2 * n \<le> length mem" "2 * n < 2 ^ 32"
      by simp_all
    from Suc.IH [OF ok1 p, of "c + 1" ?rect1 "ops @ px"] obtain font' px' k where
      run: "hz_draw_loop envs gc mem h wb (c + 1) font1 (str + 2) (of_nat (2 * n)) ?rect1 (ops @ px) =
              Inr (font', ?rect1\<lparr>x1 := x1 ?rect1 + of_nat k * S\<rparr>, (ops @ px) @ px')"
      and k: "k \<le> n"
      and stop: "k = n \<or> sint (x2 ?rect1) \<le> sint (x1 ?rect1 + of_nat k * S)"
      and before: "\<forall>j<k. sint (x1 ?rect1 + of_nat j * S) < sint (x2 ?rect1)"
      and ok': "font_ok font'" "font_size font' = S"
      by blast
    have adv: "x1 rect + S + of_nat j * S = x1 rect + of_nat (Suc j) * S" for j
      by (simp add: algebra_simps)
    have "hz_draw_loop envs gc mem h wb c font str (of_nat (2 * Suc n)) rect ops =
            Inr (font', rect\<lparr>x1 := x1 rect + of_nat (Suc k) * S\<rparr>, ops @ (px @ px'))"
      using step run by (simp add: adv)
    moreover have "Suc k = Suc n \<or> sint (x2 rect) \<le> sint (x1 rect + of_nat (Suc k) * S)"
      using stop by (simp add: adv)
    moreover have "\<forall>j<Suc k. sint (x1 rect + of_nat j * S) < sint (x2 rect)"
    proof (intro allI impI)
      fix j assume j: "j < Suc k"
      show "sint (x1 rect + of_nat j * S) < sint (x2 rect)"
      proof (cases j)
        case 0
        with True show ?thesis by simp
      next
        case (Suc j')
        with j before have "sint (x1 ?rect1 + of_nat j' * S) < sint (x2 ?rect1)" by simp
        with Suc show ?thesis by (simp add: adv)
      qed
    qed
    ultimately show ?thesis using k ok' by blast
  qed
qed

lemma advance_no_wrap:
  fixes S w :: "16 word"
  assumes lim: "sint x + uint S \<le> 32767"
    and before: "\<forall>j<k. sint (w + of_nat j * S) < sint x"
  shows "sint (w + of_nat k * S) = sint w + int k * uint S"
  using before
proof (induction k)
  case 0
  then show ?case by simp
next
  case (Suc k)
  then have ih: "sint (w + of_nat k * S) = sint w + int k * uint S" by simp
  from Suc.prems have "sint (w + of_nat k * S) < sint x" by simp
  with lim have "sint (w + of_nat k * S) + uint S \<le> 32767" by simp
  from sint_add_uint16 [OF this] ih
  have "sint (w + of_nat k * S + S) = sint w + int k * uint S + uint S" by simp
  moreover have "w + of_nat k * S + S = w + of_nat (Suc k) * S" by (simp add: algebra_simps)
  ultimately show ?case by (simp add: algebra_simps)
qed


lemma get_None_font_size:
  assumes "font_cache_get env font hz = Inr (None, font', t)"
  shows "font_size font' = font_size font"
  using get_cases [OF assms] by auto

text \<open>
  Runs of whole pairs. A run of \<open>n\<close> glyph pairs that lies in the buffer is drawn
  without a fault: the
  loop runs \<open>k \<le> n\<close> times and leaves \<open>x1\<close> advanced by \<open>k\<close> times the font size (in
  \<open>rt_int16_t\<close> arithmetic, which is the integer sum when \<open>x2 + S\<close> is representable);
  it has stopped because the run is exhausted or \<open>x1\<close> has reached \<open>x2\<close>, and before
  each glyph it drew \<open>x1\<close> was left of \<open>x2\<close>. When \<open>_font_cache_get\<close> returns \<open>RT_NULL\<close> for
  a glyph, the loop goes on with the next pair, \<open>x1\<close> advanced by the font size and no
  call made on the drawing surface.
\<close>

theorem glyph_loop_advances_by_font_size:
  assumes ok: "font_ok font" and run: "str + 2 * n \<le> length mem" and len: "2 * n < 2 ^ 32"
  shows "(\<exists>font' px k.
           hz_file_font_draw_text envs font gc mem str (of_nat (2 * n)) rect =
             Inr (font', rect\<lparr>x1 := x1 rect + of_nat k * font_size font\<rparr>, px) \<and>
           k \<le> n \<and>
           (k = n \<or> sint (x2 rect) \<le> sint (x1 rect + of_nat k * font_size font)) \<and>
           (\<forall>j<k. sint (x1 rect + of_nat j * font_size font) < sint (x2 rect)) \<and>
           (sint (x2 rect) + uint (font_size font) \<le> 32767 \<longrightarrow>
              sint (x1 rect + of_nat k * font_size font) =
                sint (x1 rect) + int k * uint (font_size font)))
       \<and> (left \<noteq> 0 \<longrightarrow> sint (x1 rect) < sint (x2 rect) \<longrightarrow>
            byte_at mem str = Some b0 \<longrightarrow> byte_at mem (str + 1) = Some b1 \<longrightarrow>
            font_cache_get (envs c) font (ucast b0 OR push_bit 8 (ucast b1)) = Inr (None, font1, t) \<longrightarrow>
              hz_draw_loop envs gc mem h wb c font str left rect ops =
                hz_draw_loop envs gc mem h wb (c + 1) font1 (str + 2) (left - 2)
                  (rect\<lparr>x1 := x1 rect + font_size font\<rparr>) ops)"
proof (intro conjI impI)
  have h: "drawing_height font rect \<le> uint (font_size font)"
    by (simp add: drawing_height_def)
  have wb: "row_bytes font = int ((unat (font_size font) + 7) div 8)"
    by (rule row_bytes_nat)
  from hz_draw_loop_run [OF h wb ok refl run len, of envs gc 0 rect "[]"]
  obtain font' px k where
    r: "hz_draw_loop envs gc mem (drawing_height font rect) (row_bytes font) 0 font str
          (of_nat (2 * n)) rect [] =
        Inr (font', rect\<lparr>x1 := x1 rect + of_nat k * font_size font\<rparr>, [] @ px)"
    and k: "k \<le> n"
    and stop: "k = n \<or> sint (x2 rect) \<le> sint (x1 rect + of_nat k * font_size font)"
    and before: "\<forall>j<k. sint (x1 rect + of_nat j * font_size font) < sint (x2 rect)"
    by blast
  have "sint (x2 rect) + uint (font_size font) \<le> 32767 \<longrightarrow>
          sint (x1 rect + of_nat k * font_size font) = sint (x1 rect) + int k * uint (font_size font)"
    using advance_no_wrap [OF _ before] by blast
  with r k stop before
  show "\<exists>font' px k.
           hz_file_font_draw_text envs font gc mem str (of_nat (2 * n)) rect =
             Inr (font', rect\<lparr>x1 := x1 rect + of_nat k * font_size font\<rparr>, px) \<and>
           k \<le> n \<and>
           (k = n \<or> sint (x2 rect) \<le> sint (x1 rect + of_nat k * font_size font)) \<and>
           (\<forall>j<k. sint (x1 rect + of_nat j * font_size font) < sint (x2 rect)) \<and>
           (sint (x2 rect) + uint (font_size font) \<le> 32767 \<longrightarrow>
              sint (x1 rect + of_nat k * font_size font) =
                sint (x1 rect) + int k * uint (font_size font))"
    unfolding hz_file_font_draw_text_def by (intro exI [of _ font'] exI [of _ px] exI [of _ k]) simp
next
  assume a: "left \<noteq> 0" "sint (x1 rect) < sint (x2 rect)"
    "byte_at mem str = Some b0" "byte_at mem (str + 1) = Some b1"
    and g: "font_cache_get (envs c) font (ucast b0 OR push_bit 8 (ucast b1)) = Inr (None, font1, t)"
  have d: "(case None of None \<Rightarrow> Inr [] | Some bitmap \<Rightarrow> draw_i bitmap gc rect h wb 0) =
             (Inr [] :: fault + dc_op list)" by simp
  from hz_draw_loop_step [where envs = envs and c = c and ops = ops, OF a g d]
    get_None_font_size [OF g]
  show "hz_draw_loop envs gc mem h wb c font str left rect ops =
                hz_draw_loop envs gc mem h wb (c + 1) font1 (str + 2) (left - 2)
                  (rect\<lparr>x1 := x1 rect + font_size font\<rparr>) ops"
    by simp
qed

theorem glyph_loop_advances_by_font_size_witness:
  "font_ok empty_font \<and> 0 + 2 * 2 \<le> length two_glyphs \<and>
   hz_file_font_draw_text (\<lambda>n. no_file_env) empty_font fill_gc two_glyphs 0 4 wide_rect =
     Inr (empty_font, wide_rect\<lparr>x1 := 32\<rparr>, []) \<and>
   (\<exists>font' px k.
      hz_file_font_draw_text (\<lambda>n. no_file_env) empty_font fill_gc two_glyphs 0 (of_nat (2 * 2)) wide_rect =
        Inr (font', wide_rect\<lparr>x1 := x1 wide_rect + of_nat k * font_size empty_font\<rparr>, px) \<and>
      k \<le> 2 \<and>
      (k = 2 \<or> sint (x2 wide_rect) \<le> sint (x1 wide_rect + of_nat k * font_size empty_font)))"
proof -
  have ok: "font_ok empty_font"
    by (simp add: font_ok_def cache_inv_def empty_font_def)
  have run: "0 + 2 * 2 \<le> length two_glyphs" by (simp add: two_glyphs_def)
  have len: "2 * 2 < (2 :: nat) ^ 32" by simp
  have ev: "hz_file_font_draw_text (\<lambda>n. no_file_env) empty_font fill_gc two_glyphs 0 4 wide_rect =
     Inr (empty_font, wide_rect\<lparr>x1 := 32\<rparr>, [])"
    by code_simp
  from glyph_loop_advances_by_font_size [OF ok run len, of "\<lambda>n. no_file_env" fill_gc wide_rect]
  have "\<exists>font' px k.
      hz_file_font_draw_text (\<lambda>n. no_file_env) empty_font fill_gc two_glyphs 0 (of_nat (2 * 2)) wide_rect =
        Inr (font', wide_rect\<lparr>x1 := x1 wide_rect + of_nat k * font_size empty_font\<rparr>, px) \<and>
      k \<le> 2 \<and>
      (k = 2 \<or> sint (x2 wide_rect) \<le> sint (x1 wide_rect + of_nat k * font_size empty_font))"
    by blast
  with ok run ev show ?thesis by blast
qed

section \<open>A run with an odd number of bytes\<close>

text \<open>
  C6. The run is the single byte \<open>0xB0\<close> at the end of the buffer \<open>[0xB0, 0]\<close>, drawn
  into a rectangle 100 wide with a 16 pixel font. The loop pairs the byte with the
  terminator, \<open>len -= 2\<close> wraps the unsigned count from 1 to \<open>0xFFFFFFFF\<close>, \<open>x1 = 16\<close>
  is still left of \<open>x2\<close>, and the next iteration reads at \<open>str + 2\<close>, past the end of
  the buffer. The same happens when the byte is followed by an ASCII byte.
\<close>

theorem odd_run_reads_out_of_bounds:
  "hz_file_font_draw_text (\<lambda>n. no_file_env) empty_font fill_gc [0xB0, 0] 0 1 wide_rect =
     Inl OutOfBounds \<and>
   hz_file_font_draw_text (\<lambda>n. no_file_env) empty_font fill_gc [0xB0, 0x41, 0] 0 1 wide_rect =
     Inl OutOfBounds"
  by code_simp

text \<open>
  C8. The loop does not end when a run is exhausted if the run has an odd number of
  bytes. The segmentation of \<open>odd_run_text\<close> hands the one-byte run \<open>0xB0\<close> to
  \<open>_rtgui_hz_file_font_draw_text\<close> with \<open>len = 1\<close>. With a 16 pixel font and a
  rectangle 100 wide the loop then takes seven steps, pairing the bytes of the text
  that follows the run, and leaves \<open>x1 = 112\<close>: after the first step \<open>len -= 2\<close> has
  wrapped the unsigned count and only \<open>x1 >= x2\<close> ends the loop. For the whole pair at
  the same place (\<open>len = 2\<close>) the loop takes one step and leaves \<open>x1 = 16\<close>.
\<close>

theorem odd_run_not_stopped_when_exhausted:
  "segment_loop 15 odd_run_text 0 14 =
     Some (Inr [(DOUBLE, [0xB0]),
                (ASCII, [0x41, 0x42, 0x43, 0x44, 0x45, 0x46, 0x47, 0x48, 0x49, 0x4A, 0x4B, 0x4C, 0x4D])]) \<and>
   hz_file_font_draw_text (\<lambda>n. no_file_env) empty_font fill_gc odd_run_text 0 1 wide_rect =
     Inr (empty_font, wide_rect\<lparr>x1 := 112\<rparr>, []) \<and>
   hz_file_font_draw_text (\<lambda>n. no_file_env) empty_font fill_gc odd_run_text 0 2 wide_rect =
     Inr (empty_font, wide_rect\<lparr>x1 := 16\<rparr>, [])"
  by code_simp

section \<open>Segmentation\<close>












lemma rt_strlen_text: "0 \<notin> set bs \<Longrightarrow> rt_strlen (bs @ 0 # rest) = Inr (length bs)"
proof -
  assume nz: "0 \<notin> set bs"
  then have "\<And>x. x \<in> set bs \<Longrightarrow> x \<noteq> 0" by auto
  then have "takeWhile (\<lambda>b. b \<noteq> 0) (bs @ 0 # rest) = bs" by simp
  then show ?thesis by (simp add: rt_strlen_def)
qed





section \<open>The width of a text\<close>

lemma rt_strlen_replicate: "c \<noteq> 0 \<Longrightarrow> rt_strlen (replicate n c @ [0]) = Inr n"
  using rt_strlen_text [of "replicate n c" "[]"] by simp

lemma long_text_strlen: "rt_strlen long_text = Inr 536870912"
  unfolding long_text_def by (rule rt_strlen_replicate) simp

text \<open>
  C9. With a 16 pixel font a transcoded text of 4 bytes has width 32 and height 16.
  With the same font a transcoded text of \<open>2^29\<close> bytes has the product
  \<open>8 * 2^29 = 2^32\<close>, which is 0 in the \<open>rt_uint32_t x2\<close>: the comparison with
  \<open>0x7FFF\<close> comes after the product has wrapped, and the width is 0.
\<close>

theorem metrics_width_wraps:
  "rtgui_hz_file_font_get_metrics empty_font True long_text rect =
     Inr (rect\<lparr>x1 := 0, y1 := 0, x2 := 0, y2 := 16\<rparr>) \<and>
   rtgui_hz_file_font_get_metrics empty_font True [0x41, 0xB0, 0xA1, 0x42, 0] rect =
     Inr (rect\<lparr>x1 := 0, y1 := 0, x2 := 32, y2 := 16\<rparr>)"
proof -
  have "rt_strlen ([0x41, 0xB0, 0xA1, 0x42] @ 0 # []) = Inr (length [0x41, 0xB0, 0xA1, 0x42 :: u8])"
    by (rule rt_strlen_text) simp
  then have small: "rt_strlen [0x41, 0xB0, 0xA1, 0x42, 0] = Inr 4" by simp
  show ?thesis
    by (simp add: rtgui_hz_file_font_get_metrics_def long_text_strlen small empty_font_def)
qed

end
